theory Spec2Isabelle
  imports Main "HOL-Library.Sublist" "HOL-Library.AList"
begin

section \<open>Go errors and file information\<close>

text \<open>
  The sentinel errors the producers compare against with \<open>errors.Is\<close>:
  \<open>fs.ErrInvalid\<close>, \<open>fs.ErrPermission\<close>, \<open>fs.ErrExist\<close>, \<open>fs.ErrNotExist\<close>
  and \<open>syscall.ENOTDIR\<close>.
\<close>

datatype sentinel = ErrInvalid | ErrPermission | ErrExist | ErrNotExist | ENOTDIR

fun sentinel_text :: "sentinel \<Rightarrow> string" where
  "sentinel_text ErrInvalid = ''invalid argument''"
| "sentinel_text ErrPermission = ''permission denied''"
| "sentinel_text ErrExist = ''file already exists''"
| "sentinel_text ErrNotExist = ''file does not exist''"
| "sentinel_text ENOTDIR = ''not a directory''"

text \<open>
  The dynamic type of an error value: a sentinel itself, the wrapper built by
  \<open>fmt.Errorf\<close> with \<open>%w\<close>, an \<open>*os.PathError\<close>, an \<open>*sftp.StatusError\<close>, or any
  other error of a client library.
\<close>

datatype errtype = Sentinel | WrapError | PathError | StatusError | Opaque

text \<open>
  An error value: the text \<open>err.Error()\<close> prints, the sentinels \<open>errors.Is\<close> finds in its
  chain, and its dynamic type. The nil error is \<open>None\<close> of \<open>error option\<close>.
\<close>

datatype error = Err (Error: string) (chain: "sentinel list") (dyntype: errtype)

definition errors_Is :: "error \<Rightarrow> sentinel \<Rightarrow> bool" where
  "errors_Is err target = (target \<in> set (chain err))"

text \<open>\<open>fmt.Errorf(prefix + "%w", target)\<close>: the text ends with the target's text and the
  chain holds the target alone.\<close>

definition Errorf_w :: "string \<Rightarrow> sentinel \<Rightarrow> error" where
  "Errorf_w pre target = Err (pre @ sentinel_text target) [target] WrapError"

text \<open>\<open>&os.PathError{Op: op, Path: path, Err: errno}\<close>.\<close>

definition os_PathError :: "string \<Rightarrow> string \<Rightarrow> sentinel \<Rightarrow> error" where
  "os_PathError op path errno =
     Err (op @ '' '' @ path @ '': '' @ sentinel_text errno) [errno] PathError"

text \<open>\<open>strings.Contains(s, substr)\<close>.\<close>

primrec Contains :: "string \<Rightarrow> string \<Rightarrow> bool" where
  "Contains [] substr = (substr = [])"
| "Contains (c # cs) substr = (prefix substr (c # cs) \<or> Contains cs substr)"

record fileinfo =
  Name :: string
  IsDir :: bool

section \<open>The FTP producer\<close>

text \<open>
  The \<open>goftp.Client\<close> behind \<open>producerFTP\<close> is a collaborator outside the repository: its
  five calls are parameters, each a function from the server state to a result and the
  next state.
\<close>

record 's goftp_client =
  client_Stat :: "string \<Rightarrow> 's \<Rightarrow> (error + fileinfo) \<times> 's"
  client_ReadDir :: "string \<Rightarrow> 's \<Rightarrow> (error + fileinfo list) \<times> 's"
  client_Delete :: "string \<Rightarrow> 's \<Rightarrow> error option \<times> 's"
  client_Rmdir :: "string \<Rightarrow> 's \<Rightarrow> error option \<times> 's"
  client_Mkdir :: "string \<Rightarrow> 's \<Rightarrow> (string \<times> error option) \<times> 's"

definition Stat :: "'s goftp_client \<Rightarrow> string \<Rightarrow> 's \<Rightarrow> (error + fileinfo) \<times> 's" where
  "Stat p path = client_Stat p path"

definition ReadDir :: "'s goftp_client \<Rightarrow> string \<Rightarrow> 's \<Rightarrow> (error + fileinfo list) \<times> 's" where
  "ReadDir p path = client_ReadDir p path"

definition DeleteFile :: "'s goftp_client \<Rightarrow> string \<Rightarrow> 's \<Rightarrow> error option \<times> 's" where
  "DeleteFile p path = client_Delete p path"

definition DeleteDir :: "'s goftp_client \<Rightarrow> string \<Rightarrow> 's \<Rightarrow> error option \<times> 's" where
  "DeleteDir p path = client_Rmdir p path"

definition MakeDir :: "'s goftp_client \<Rightarrow> string \<Rightarrow> 's \<Rightarrow> error option \<times> 's" where
  "MakeDir p path s = (case client_Mkdir p path s of ((_, err), s1) \<Rightarrow> (err, s1))"

subsection \<open>RemoveAny\<close>

definition RemoveAny :: "'s goftp_client \<Rightarrow> string \<Rightarrow> 's \<Rightarrow> error option \<times> 's" where
  "RemoveAny p path s =
     (case Stat p path s of
        (Inl err, s1) \<Rightarrow>
          (Some (Errorf_w (path @ '': '' @ Error err @ '': '') ErrNotExist), s1)
      | (Inr dir, s1) \<Rightarrow>
          if IsDir dir then
            (case DeleteDir p path s1 of
               (Some err, s2) \<Rightarrow>
                 (Some (Errorf_w (path @ '': '' @ Error err @ '': Directory is not empty: '')
                          ErrPermission), s2)
             | (None, s2) \<Rightarrow> (None, s2))
          else
            (case DeleteFile p path s1 of
               (Some err, s2) \<Rightarrow>
                 (Some (Errorf_w (path @ '': '' @ Error err @ '': '') ErrInvalid), s2)
             | (None, s2) \<Rightarrow> (None, s2)))"

subsection \<open>RemoveAllRecursive\<close>

text \<open>
  How a pass of the inner \<open>for\<close> leaves it: \<open>break\<close> (the next iteration of the loop
  labelled \<open>DIR\<close> lists the directory again), \<open>break DIR\<close> (on to the final removal), or
  \<open>return\<close> from the whole function.
\<close>

datatype exit = Break | BreakDIR | Return "error option"

text \<open>The statements after the loop \<open>DIR\<close>: remove the directory itself.\<close>

definition remove_directory :: "'s goftp_client \<Rightarrow> string \<Rightarrow> 's \<Rightarrow> error option \<times> 's" where
  "remove_directory p path s =
     (case RemoveAny p path s of
        (None, s1) \<Rightarrow> (None, s1)
      | (Some err1, s1) \<Rightarrow>
          if errors_Is err1 ErrNotExist then (None, s1) else (Some err1, s1))"

text \<open>
  The recursion and both loops may run without end, so they are given fuel: a call with
  fuel \<open>Suc n\<close> gives its recursive calls fuel \<open>n\<close> and lets each of its loops run at
  most \<open>Suc n\<close> iterations; \<open>None\<close> is "no result within this fuel".

  \<^item> \<open>range_names\<close> is \<open>for _, name := range names\<close>, carrying \<open>err\<close> and \<open>numErr\<close>;
    \<open>rec\<close> is the recursive call of \<open>RemoveAllRecursive\<close>. The counters \<open>numErr\<close> and
    \<open>entities\<close> are Go \<open>int\<close>s that count list elements, far from overflow; they are
    natural numbers here.
  \<^item> \<open>retry_loop\<close> is the inner \<open>for\<close>. The closure appends the names of \<open>infos\<close> to the
    \<open>names\<close> declared before the loop and the inner \<open>names\<close> is that grown slice, so the
    argument \<open>names\<close> holds what earlier passes over this listing accumulated.
  \<^item> \<open>dir_loop\<close> is the loop labelled \<open>DIR\<close>. Its \<open>infos, err := p.ReadDir(path)\<close> declares a
    fresh \<open>err\<close> in every iteration, nil once the listing succeeded; the \<open>err\<close> of the
    function's first statement is shadowed there.
\<close>

primrec range_names ::
  "(string \<Rightarrow> 's \<Rightarrow> (error option \<times> 's) option) \<Rightarrow> string \<Rightarrow> string list \<Rightarrow>
     error option \<Rightarrow> nat \<Rightarrow> 's \<Rightarrow> ((error option \<times> nat) \<times> 's) option"
where
  "range_names rec path [] err numErr s = Some ((err, numErr), s)"
| "range_names rec path (name # rest) err numErr s =
     (case rec (path @ ''/'' @ name) s of
        None \<Rightarrow> None
      | Some (err1, s1) \<Rightarrow>
          range_names rec path rest
            (if err = None then err1 else err)
            (if err1 \<noteq> None then numErr + 1 else numErr) s1)"

primrec retry_loop ::
  "'s goftp_client \<Rightarrow> (string \<Rightarrow> 's \<Rightarrow> (error option \<times> 's) option) \<Rightarrow> nat \<Rightarrow> string \<Rightarrow>
     fileinfo list \<Rightarrow> nat \<Rightarrow> string list \<Rightarrow> error option \<Rightarrow> 's \<Rightarrow> (exit \<times> 's) option"
where
  "retry_loop p rec 0 path infos entities names err s = None"
| "retry_loop p rec (Suc n) path infos entities names err s =
     (if length (names @ map Name infos) = 0 then Some (BreakDIR, s)
      else
        (case range_names rec path (names @ map Name infos) err 0 s of
           None \<Rightarrow> None
         | Some ((err', numErr), s1) \<Rightarrow>
             if numErr \<noteq> entities then Some (Break, s1)
             else if length (names @ map Name infos) = 0 then Some (Break, s1)
             else if length (names @ map Name infos) < entities then
               (case RemoveAny p path s1 of
                  (None, s2) \<Rightarrow> Some (Return None, s2)
                | (Some err1, s2) \<Rightarrow>
                    if errors_Is err1 ErrNotExist then Some (Return None, s2)
                    else if err' \<noteq> None then Some (Return err', s2)
                    else retry_loop p rec n path infos entities (names @ map Name infos) err' s2)
             else retry_loop p rec n path infos entities (names @ map Name infos) err' s1))"

primrec dir_loop ::
  "'s goftp_client \<Rightarrow> (string \<Rightarrow> 's \<Rightarrow> (error option \<times> 's) option) \<Rightarrow> nat \<Rightarrow> string \<Rightarrow>
     's \<Rightarrow> (error option \<times> 's) option"
where
  "dir_loop p rec 0 path s = None"
| "dir_loop p rec (Suc n) path s =
     (case ReadDir p path s of
        (Inl err, s1) \<Rightarrow>
          if errors_Is err ErrNotExist then Some (None, s1) else Some (Some err, s1)
      | (Inr infos, s1) \<Rightarrow>
          if length infos = 0 then Some (remove_directory p path s1)
          else
            (case retry_loop p rec (Suc n) path infos (length infos) [] None s1 of
               None \<Rightarrow> None
             | Some (Break, s2) \<Rightarrow> dir_loop p rec n path s2
             | Some (BreakDIR, s2) \<Rightarrow> Some (remove_directory p path s2)
             | Some (Return r, s2) \<Rightarrow> Some (r, s2)))"

primrec RemoveAllRecursive ::
  "'s goftp_client \<Rightarrow> nat \<Rightarrow> string \<Rightarrow> 's \<Rightarrow> (error option \<times> 's) option"
where
  "RemoveAllRecursive p 0 path s = (if path = [] then Some (None, s) else None)"
| "RemoveAllRecursive p (Suc n) path s =
     (if path = [] then Some (None, s)
      else
        (case RemoveAny p path s of
           (None, s1) \<Rightarrow> Some (None, s1)
         | (Some err, s1) \<Rightarrow>
             if errors_Is err ErrNotExist then Some (None, s1)
             else if \<not> Contains (Error err) ''Directory is not empty'' then Some (Some err, s1)
             else dir_loop p (RemoveAllRecursive p n) (Suc n) path s1))"

subsection \<open>MkdirAll\<close>

text \<open>
  The two scanning loops of \<open>MkdirAll\<close>: \<open>for i > 0 && path[i-1] == '/' { i-- }\<close> and
  \<open>for j > 0 && path[j-1] != '/' { j-- }\<close>. Both start at most at \<open>len(path)\<close>, so every
  index read is in range.
\<close>

primrec skip_separators :: "string \<Rightarrow> nat \<Rightarrow> nat" where
  "skip_separators path 0 = 0"
| "skip_separators path (Suc i) =
     (if path ! i = CHR ''/'' then skip_separators path i else Suc i)"

primrec scan_element :: "string \<Rightarrow> nat \<Rightarrow> nat" where
  "scan_element path 0 = 0"
| "scan_element path (Suc j) =
     (if path ! j \<noteq> CHR ''/'' then scan_element path j else Suc j)"

function MkdirAll :: "'s goftp_client \<Rightarrow> string \<Rightarrow> 's \<Rightarrow> error option \<times> 's" where
  "MkdirAll p path s =
     (case Stat p path s of
        (Inr dir, s1) \<Rightarrow>
          if IsDir dir then (None, s1)
          else (Some (os_PathError ''mkdir'' path ENOTDIR), s1)
      | (Inl err0, s1) \<Rightarrow>
          (case (if scan_element path (skip_separators path (length path)) > 1
                 then MkdirAll p
                        (take (scan_element path (skip_separators path (length path)) - 1) path)
                        s1
                 else (None, s1)) of
             (Some err, s2) \<Rightarrow> (Some err, s2)
           | (None, s2) \<Rightarrow>
               (case MakeDir p path s2 of
                  (None, s3) \<Rightarrow> (None, s3)
                | (Some err, s3) \<Rightarrow>
                    (case Stat p path s3 of
                       (Inr dir, s4) \<Rightarrow> if IsDir dir then (None, s4) else (Some err, s4)
                     | (Inl err1, s4) \<Rightarrow> (Some err, s4)))))"
  by pat_completeness auto

termination
proof (relation "measure (\<lambda>(p, path, s). length path)")
  show "wf (measure (\<lambda>(p, path, s). length path))" by simp
next
  fix p :: "'s goftp_client" and path :: string and s s1 :: 's and x err0
  assume "1 < scan_element path (skip_separators path (length path))"
  moreover have "skip_separators path i \<le> i" for i
    by (induction i) auto
  moreover have "scan_element path j \<le> j" for j
    by (induction j) auto
  ultimately have "1 < scan_element path (skip_separators path (length path))"
    and "scan_element path (skip_separators path (length path)) \<le> length path"
    using order_trans by blast+
  then show
    "((p, take (scan_element path (skip_separators path (length path)) - 1) path, s1),
      (p, path, s)) \<in> measure (\<lambda>(p, path, s). length path)"
    by simp
qed

section \<open>The local producer\<close>

text \<open>
  \<open>localProducer.MakedirAll\<close> calls \<open>os.Stat\<close> and \<open>os.MkdirAll\<close> of the standard library;
  both are parameters (the permission bits passed to \<open>os.MkdirAll\<close> are constant).
\<close>

record 's os_calls =
  os_Stat :: "string \<Rightarrow> 's \<Rightarrow> (error + fileinfo) \<times> 's"
  os_MkdirAll :: "string \<Rightarrow> 's \<Rightarrow> error option \<times> 's"

definition local_MakedirAll :: "'s os_calls \<Rightarrow> string \<Rightarrow> 's \<Rightarrow> error option \<times> 's" where
  "local_MakedirAll p path s =
     (case os_Stat p path s of
        (Inl err, s1) \<Rightarrow>
          if errors_Is err ErrNotExist then os_MkdirAll p path s1 else (None, s1)
      | (Inr info, s1) \<Rightarrow> (None, s1))"

section \<open>The SFTP producer\<close>

text \<open>
  \<open>sftpProducer\<close> holds an SSH client and an SFTP client, both outside the repository;
  the calls the producer makes on them are parameters.
\<close>

record 's sftp_clients =
  clientSFTP_Close :: "'s \<Rightarrow> error option \<times> 's"
  clientSSH_Close :: "'s \<Rightarrow> error option \<times> 's"
  clientSFTP_Remove :: "string \<Rightarrow> 's \<Rightarrow> error option \<times> 's"
  clientSFTP_RemoveDirectory :: "string \<Rightarrow> 's \<Rightarrow> error option \<times> 's"
  clientSFTP_ReadDir :: "string \<Rightarrow> 's \<Rightarrow> (error + fileinfo list) \<times> 's"

text \<open>\<open>Close\<close> assigns the SFTP client's result to \<open>err\<close> and overwrites it at once.\<close>

definition Close :: "'s sftp_clients \<Rightarrow> 's \<Rightarrow> error option \<times> 's" where
  "Close p s =
     (case clientSFTP_Close p s of
        (err, s1) \<Rightarrow> (case clientSSH_Close p s1 of (err', s2) \<Rightarrow> (err', s2)))"

subsection \<open>RemoveAllRecursive over SFTP\<close>

text \<open>
  \<open>Remove\<close> compares the error with the value \<open>fs.ErrPermission\<close> itself; \<open>DeleteDir\<close> and
  \<open>ReadDir\<close> pass the call on.
\<close>

definition sftp_Remove :: "'s sftp_clients \<Rightarrow> string \<Rightarrow> 's \<Rightarrow> error option \<times> 's" where
  "sftp_Remove p path s =
     (case clientSFTP_Remove p path s of
        (None, s1) \<Rightarrow> (None, s1)
      | (Some err, s1) \<Rightarrow>
          if err = Err (sentinel_text ErrPermission) [ErrPermission] Sentinel
          then clientSFTP_RemoveDirectory p path s1
          else (Some err, s1))"

definition sftp_DeleteDir :: "'s sftp_clients \<Rightarrow> string \<Rightarrow> 's \<Rightarrow> error option \<times> 's" where
  "sftp_DeleteDir p path = clientSFTP_RemoveDirectory p path"

definition sftp_ReadDir ::
  "'s sftp_clients \<Rightarrow> string \<Rightarrow> 's \<Rightarrow> (error + fileinfo list) \<times> 's" where
  "sftp_ReadDir p path = clientSFTP_ReadDir p path"

text \<open>The statements after the loop \<open>DIR\<close> of the SFTP copy: \<open>DeleteDir\<close> of the path.\<close>

definition sftp_remove_directory ::
  "'s sftp_clients \<Rightarrow> string \<Rightarrow> 's \<Rightarrow> error option \<times> 's" where
  "sftp_remove_directory p path s =
     (case sftp_DeleteDir p path s of
        (None, s1) \<Rightarrow> (None, s1)
      | (Some err1, s1) \<Rightarrow>
          if errors_Is err1 ErrNotExist then (None, s1) else (Some err1, s1))"

text \<open>
  The SFTP copy has the same two loops and the same \<open>range\<close>. Its inner \<open>for\<close> ends with the
  test of \<open>numErr\<close>; the test \<open>len(names) < entities\<close> stands after the inner loop and reads
  the \<open>names\<close> and the \<open>err\<close> of the iteration of \<open>DIR\<close>, so the inner loop hands both back.
\<close>

primrec sftp_retry_loop ::
  "(string \<Rightarrow> 's \<Rightarrow> (error option \<times> 's) option) \<Rightarrow> nat \<Rightarrow> string \<Rightarrow>
     fileinfo list \<Rightarrow> nat \<Rightarrow> string list \<Rightarrow> error option \<Rightarrow> 's \<Rightarrow>
     (exit \<times> string list \<times> error option \<times> 's) option"
where
  "sftp_retry_loop rec 0 path infos entities names err s = None"
| "sftp_retry_loop rec (Suc n) path infos entities names err s =
     (if length (names @ map Name infos) = 0
      then Some (BreakDIR, names @ map Name infos, err, s)
      else
        (case range_names rec path (names @ map Name infos) err 0 s of
           None \<Rightarrow> None
         | Some ((err', numErr), s1) \<Rightarrow>
             if numErr \<noteq> entities then Some (Break, names @ map Name infos, err', s1)
             else sftp_retry_loop rec n path infos entities (names @ map Name infos) err' s1))"

primrec sftp_dir_loop ::
  "'s sftp_clients \<Rightarrow> (string \<Rightarrow> 's \<Rightarrow> (error option \<times> 's) option) \<Rightarrow> nat \<Rightarrow> string \<Rightarrow>
     's \<Rightarrow> (error option \<times> 's) option"
where
  "sftp_dir_loop p rec 0 path s = None"
| "sftp_dir_loop p rec (Suc n) path s =
     (case sftp_ReadDir p path s of
        (Inl err, s1) \<Rightarrow>
          if errors_Is err ErrNotExist then Some (None, s1) else Some (Some err, s1)
      | (Inr infos, s1) \<Rightarrow>
          if length infos = 0 then Some (sftp_remove_directory p path s1)
          else
            (case sftp_retry_loop rec (Suc n) path infos (length infos) [] None s1 of
               None \<Rightarrow> None
             | Some (BreakDIR, names, err, s2) \<Rightarrow> Some (sftp_remove_directory p path s2)
             | Some (Return r, names, err, s2) \<Rightarrow> Some (r, s2)
             | Some (Break, names, err, s2) \<Rightarrow>
                 if length names < length infos then
                   (case sftp_DeleteDir p path s2 of
                      (None, s3) \<Rightarrow> Some (None, s3)
                    | (Some err1, s3) \<Rightarrow>
                        if errors_Is err1 ErrNotExist then Some (None, s3)
                        else if err \<noteq> None then Some (err, s3)
                        else sftp_dir_loop p rec n path s3)
                 else sftp_dir_loop p rec n path s2))"

primrec sftp_RemoveAllRecursive ::
  "'s sftp_clients \<Rightarrow> nat \<Rightarrow> string \<Rightarrow> 's \<Rightarrow> (error option \<times> 's) option"
where
  "sftp_RemoveAllRecursive p 0 path s = (if path = [] then Some (None, s) else None)"
| "sftp_RemoveAllRecursive p (Suc n) path s =
     (if path = [] then Some (None, s)
      else
        (case sftp_Remove p path s of
           (None, s1) \<Rightarrow> Some (None, s1)
         | (Some err, s1) \<Rightarrow>
             if errors_Is err ErrNotExist then Some (None, s1)
             else if dyntype err = StatusError
                     \<and> \<not> Contains (Error err) ''Directory is not empty''
             then Some (Some err, s1)
             else sftp_dir_loop p (sftp_RemoveAllRecursive p n) (Suc n) path s1))"

section \<open>An in-memory server\<close>

text \<open>
  Modelled from the spec: the server behind the client calls is not part of the repository.
  The spec's Capability Interface (sections 4.1 and 6) fixes what the calls do: \<open>stat\<close> and
  \<open>listDirectory\<close> fail with NotFound on an absent path, \<open>removeEmptyDirectory\<close> fails with
  a "not empty" condition on a directory with children and with NotFound on an absent one,
  \<open>makeOneDirectory\<close> creates one level and fails if the parent is missing. The server
  state is a directory tree; a path is resolved from its root, one name per component.
\<close>

datatype node = File | Dir "(string \<times> node) list"

fun split_path :: "string \<Rightarrow> string list" where
  "split_path [] = [[]]"
| "split_path (c # cs) =
     (if c = CHR ''/'' then [] # split_path cs
      else (case split_path cs of [] \<Rightarrow> [[c]] | x # xs \<Rightarrow> (c # x) # xs))"

fun resolve :: "string list \<Rightarrow> node \<Rightarrow> node option" where
  "resolve [] t = Some t"
| "resolve (c # cs) File = None"
| "resolve (c # cs) (Dir es) = (case map_of es c of None \<Rightarrow> None | Some t \<Rightarrow> resolve cs t)"

fun remove :: "string list \<Rightarrow> node \<Rightarrow> node" where
  "remove [] t = t"
| "remove (c # cs) File = File"
| "remove (c # cs) (Dir es) =
     (if cs = [] then Dir (AList.delete c es) else Dir (AList.map_entry c (remove cs) es))"

fun insert_dir :: "string list \<Rightarrow> node \<Rightarrow> node option" where
  "insert_dir [] t = None"
| "insert_dir (c # cs) File = None"
| "insert_dir (c # cs) (Dir es) =
     (case map_of es c of
        None \<Rightarrow> if cs = [] then Some (Dir (es @ [(c, Dir [])])) else None
      | Some t \<Rightarrow>
          (case insert_dir cs t of
             None \<Rightarrow> None
           | Some t' \<Rightarrow> Some (Dir (AList.update c t' es))))"

definition not_found :: error where
  "not_found = Err ''550 No such file or directory'' [ErrNotExist] Opaque"

definition not_empty :: error where
  "not_empty = Err ''550 Directory not empty'' [] Opaque"

definition refused :: error where
  "refused = Err ''550 Operation not permitted'' [] Opaque"

definition info_of :: "string \<Rightarrow> node \<Rightarrow> fileinfo" where
  "info_of name t = \<lparr>Name = name, IsDir = (t \<noteq> File)\<rparr>"

definition mem_Stat :: "string \<Rightarrow> node \<Rightarrow> (error + fileinfo) \<times> node" where
  "mem_Stat path t =
     (case resolve (split_path path) t of
        None \<Rightarrow> (Inl not_found, t)
      | Some sub \<Rightarrow> (Inr (info_of (last (split_path path)) sub), t))"

definition mem_ReadDir :: "string \<Rightarrow> node \<Rightarrow> (error + fileinfo list) \<times> node" where
  "mem_ReadDir path t =
     (case resolve (split_path path) t of
        None \<Rightarrow> (Inl not_found, t)
      | Some File \<Rightarrow> (Inl refused, t)
      | Some (Dir es) \<Rightarrow> (Inr (map (\<lambda>(name, sub). info_of name sub) es), t))"

text \<open>\<open>locked\<close> lists the paths the server never lets go of: removing them always fails.\<close>

definition mem_Delete :: "string list \<Rightarrow> string \<Rightarrow> node \<Rightarrow> error option \<times> node" where
  "mem_Delete locked path t =
     (case resolve (split_path path) t of
        None \<Rightarrow> (Some not_found, t)
      | Some File \<Rightarrow>
          if path \<in> set locked then (Some refused, t)
          else (None, remove (split_path path) t)
      | Some (Dir es) \<Rightarrow> (Some refused, t))"

definition mem_Rmdir :: "string list \<Rightarrow> string \<Rightarrow> node \<Rightarrow> error option \<times> node" where
  "mem_Rmdir locked path t =
     (case resolve (split_path path) t of
        None \<Rightarrow> (Some not_found, t)
      | Some File \<Rightarrow> (Some refused, t)
      | Some (Dir es) \<Rightarrow>
          if es \<noteq> [] then (Some not_empty, t)
          else if path \<in> set locked then (Some refused, t)
          else (None, remove (split_path path) t))"

definition mem_Mkdir :: "string \<Rightarrow> node \<Rightarrow> (string \<times> error option) \<times> node" where
  "mem_Mkdir path t =
     (case insert_dir (split_path path) t of
        None \<Rightarrow> (([], Some refused), t)
      | Some t' \<Rightarrow> ((path, None), t'))"

definition memfs :: "string list \<Rightarrow> node goftp_client" where
  "memfs locked =
     \<lparr>client_Stat = mem_Stat, client_ReadDir = mem_ReadDir,
      client_Delete = mem_Delete locked, client_Rmdir = mem_Rmdir locked,
      client_Mkdir = mem_Mkdir\<rparr>"

subsection \<open>The same server behind the SFTP client\<close>

text \<open>
  Modelled from the spec: for the SFTP producer the server answers \<open>Remove\<close> as the spec's
  \<open>removeEntry\<close> contract says (a file or an empty directory goes, a directory with children
  fails with the "not empty" condition, an absent path with NotFound). The SFTP producer
  tells the "not empty" condition by the text of a status error, so the server reports it
  that way.
\<close>

definition sftp_not_empty :: error where
  "sftp_not_empty = Err ''sftp: Directory is not empty (SSH_FX_FAILURE)'' [] StatusError"

definition sftp_failure :: error where
  "sftp_failure = Err ''sftp: Failure (SSH_FX_FAILURE)'' [] StatusError"

definition mem_Remove :: "string list \<Rightarrow> string \<Rightarrow> node \<Rightarrow> error option \<times> node" where
  "mem_Remove locked path t =
     (case resolve (split_path path) t of
        None \<Rightarrow> (Some not_found, t)
      | Some File \<Rightarrow>
          if path \<in> set locked then (Some sftp_failure, t)
          else (None, remove (split_path path) t)
      | Some (Dir es) \<Rightarrow>
          if es \<noteq> [] then (Some sftp_not_empty, t)
          else if path \<in> set locked then (Some sftp_failure, t)
          else (None, remove (split_path path) t))"

definition sftp_memfs :: "string list \<Rightarrow> node sftp_clients" where
  "sftp_memfs locked =
     \<lparr>clientSFTP_Close = (\<lambda>t. (None, t)), clientSSH_Close = (\<lambda>t. (None, t)),
      clientSFTP_Remove = mem_Remove locked, clientSFTP_RemoveDirectory = mem_Rmdir locked,
      clientSFTP_ReadDir = mem_ReadDir\<rparr>"

text \<open>A tree is well formed when sibling names are distinct and no name holds a slash.\<close>

fun wf_node :: "node \<Rightarrow> bool" where
  "wf_node File = True"
| "wf_node (Dir es) =
     (distinct (map fst es) \<and> (\<forall>(name, sub) \<in> set es. CHR ''/'' \<notin> set name \<and> wf_node sub))"

text \<open>The height of a tree; any fuel above it is enough to remove the tree.\<close>

fun height :: "node \<Rightarrow> nat" where
  "height File = 0"
| "height (Dir es) = Suc (fold max (map (\<lambda>(name, sub). height sub) es) 0)"

subsection \<open>Recording the calls\<close>

text \<open>A client that keeps, beside the state of the client it wraps, the calls made so far.\<close>

datatype call = CStat string | CReadDir string | CDelete string | CRmdir string | CMkdir string

definition traced :: "'s goftp_client \<Rightarrow> ('s \<times> call list) goftp_client" where
  "traced c =
     \<lparr>client_Stat = (\<lambda>path (s, tr).
        case client_Stat c path s of (r, s') \<Rightarrow> (r, (s', tr @ [CStat path]))),
      client_ReadDir = (\<lambda>path (s, tr).
        case client_ReadDir c path s of (r, s') \<Rightarrow> (r, (s', tr @ [CReadDir path]))),
      client_Delete = (\<lambda>path (s, tr).
        case client_Delete c path s of (r, s') \<Rightarrow> (r, (s', tr @ [CDelete path]))),
      client_Rmdir = (\<lambda>path (s, tr).
        case client_Rmdir c path s of (r, s') \<Rightarrow> (r, (s', tr @ [CRmdir path]))),
      client_Mkdir = (\<lambda>path (s, tr).
        case client_Mkdir c path s of (r, s') \<Rightarrow> (r, (s', tr @ [CMkdir path])))\<rparr>"

subsection \<open>A server with transient failures\<close>

text \<open>
  The in-memory server with a counter beside the tree: while the counter is positive a
  \<open>Delete\<close> fails and counts down, as a file does that another actor holds for a while.
\<close>

definition flakyfs :: "string list \<Rightarrow> (node \<times> nat) goftp_client" where
  "flakyfs locked =
     \<lparr>client_Stat = (\<lambda>path (t, k). case mem_Stat path t of (r, t') \<Rightarrow> (r, (t', k))),
      client_ReadDir = (\<lambda>path (t, k). case mem_ReadDir path t of (r, t') \<Rightarrow> (r, (t', k))),
      client_Delete = (\<lambda>path (t, k).
        if k > 0 then (Some refused, (t, k - 1))
        else (case mem_Delete locked path t of (r, t') \<Rightarrow> (r, (t', k)))),
      client_Rmdir = (\<lambda>path (t, k).
        case mem_Rmdir locked path t of (r, t') \<Rightarrow> (r, (t', k))),
      client_Mkdir = (\<lambda>path (t, k). case mem_Mkdir path t of (r, t') \<Rightarrow> (r, (t', k)))\<rparr>"

subsection \<open>Auxiliary notions\<close>

text \<open>A result that does not surface NotExist: nil, or an error outside that class.\<close>

definition absorbed :: "error option \<Rightarrow> bool" where
  "absorbed r = (case r of None \<Rightarrow> True | Some e \<Rightarrow> \<not> errors_Is e ErrNotExist)"

section \<open>Properties\<close>

lemma Contains_self: "Contains (sub @ post) sub"
proof (cases "sub @ post")
  case Nil
  then show ?thesis by simp
next
  case (Cons c cs)
  have "prefix sub (sub @ post)" by simp
  with Cons show ?thesis by (metis Contains.simps(2))
qed

lemma Contains_append: "Contains (pre @ sub @ post) sub"
  by (induction pre) (auto simp: Contains_self)

text \<open>
  C9: \<open>RemoveAllRecursive\<close> on the empty path returns nil whatever the fuel, the client and
  the server state are, and the state comes back as it was: the client is arbitrary, so no
  call of it can have been made. With a client that records its calls, the record is
  unchanged. The SFTP copy does the same.
\<close>

theorem RemoveAllRecursive_empty_path:
  "RemoveAllRecursive p n [] s = Some (None, s)
   \<and> RemoveAllRecursive (traced c) n [] (t, calls) = Some (None, (t, calls))
   \<and> sftp_RemoveAllRecursive q n [] s' = Some (None, s')"
  by (cases n) simp_all

text \<open>
  C6: how \<open>RemoveAny\<close> classifies. A failed \<open>Stat\<close> gives an error in which \<open>errors.Is\<close>
  finds \<open>fs.ErrNotExist\<close> and nothing else; a directory whose \<open>DeleteDir\<close> fails gives one
  of class \<open>fs.ErrPermission\<close> whose text holds "Directory is not empty"; a file whose
  \<open>DeleteFile\<close> fails gives one of class \<open>fs.ErrInvalid\<close>; and the result is nil exactly
  when \<open>Stat\<close> succeeded and the one removal it selects succeeded.
\<close>

theorem RemoveAny_classification:
  "(\<forall>err s1. Stat p path s = (Inl err, s1) \<longrightarrow>
      (\<exists>e. RemoveAny p path s = (Some e, s1) \<and> (\<forall>t. errors_Is e t \<longleftrightarrow> t = ErrNotExist)))
   \<and> (\<forall>dir s1 err s2.
        Stat p path s = (Inr dir, s1) \<and> IsDir dir \<and> DeleteDir p path s1 = (Some err, s2) \<longrightarrow>
      (\<exists>e. RemoveAny p path s = (Some e, s2) \<and> (\<forall>t. errors_Is e t \<longleftrightarrow> t = ErrPermission)
           \<and> Contains (Error e) ''Directory is not empty''))
   \<and> (\<forall>dir s1 err s2.
        Stat p path s = (Inr dir, s1) \<and> \<not> IsDir dir \<and> DeleteFile p path s1 = (Some err, s2) \<longrightarrow>
      (\<exists>e. RemoveAny p path s = (Some e, s2) \<and> (\<forall>t. errors_Is e t \<longleftrightarrow> t = ErrInvalid)))
   \<and> (fst (RemoveAny p path s) = None \<longleftrightarrow>
        (\<exists>dir s1. Stat p path s = (Inr dir, s1)
           \<and> fst (if IsDir dir then DeleteDir p path s1 else DeleteFile p path s1) = None))"
proof (intro conjI allI impI)
  fix err s1
  assume "Stat p path s = (Inl err, s1)"
  then show "\<exists>e. RemoveAny p path s = (Some e, s1) \<and> (\<forall>t. errors_Is e t \<longleftrightarrow> t = ErrNotExist)"
    by (auto simp: RemoveAny_def errors_Is_def Errorf_w_def)
next
  fix dir s1 err s2
  assume "Stat p path s = (Inr dir, s1) \<and> IsDir dir \<and> DeleteDir p path s1 = (Some err, s2)"
  moreover have "Contains ((path @ '': '' @ Error err @ '': '') @ ''Directory is not empty''
      @ '': '' @ sentinel_text ErrPermission) ''Directory is not empty''"
    by (rule Contains_append)
  ultimately show "\<exists>e. RemoveAny p path s = (Some e, s2)
      \<and> (\<forall>t. errors_Is e t \<longleftrightarrow> t = ErrPermission)
      \<and> Contains (Error e) ''Directory is not empty''"
    by (auto simp: RemoveAny_def errors_Is_def Errorf_w_def)
next
  fix dir s1 err s2
  assume "Stat p path s = (Inr dir, s1) \<and> \<not> IsDir dir \<and> DeleteFile p path s1 = (Some err, s2)"
  then show "\<exists>e. RemoveAny p path s = (Some e, s2) \<and> (\<forall>t. errors_Is e t \<longleftrightarrow> t = ErrInvalid)"
    by (auto simp: RemoveAny_def errors_Is_def Errorf_w_def)
next
  show "fst (RemoveAny p path s) = None \<longleftrightarrow>
        (\<exists>dir s1. Stat p path s = (Inr dir, s1)
           \<and> fst (if IsDir dir then DeleteDir p path s1 else DeleteFile p path s1) = None)"
  proof (cases "Stat p path s")
    case (Pair r s1)
    show ?thesis
    proof (cases r)
      case (Inl e)
      with Pair show ?thesis by (simp add: RemoveAny_def)
    next
      case (Inr dir)
      with Pair show ?thesis
        by (cases "DeleteDir p path s1"; cases "DeleteFile p path s1")
          (simp add: RemoveAny_def split: option.splits)
    qed
  qed
qed

theorem RemoveAny_classification_witness:
  "(\<exists>e. RemoveAny (memfs []) ''gone'' (Dir [(''f'', File)]) = (Some e, Dir [(''f'', File)])
        \<and> errors_Is e ErrNotExist)
   \<and> (\<exists>e. RemoveAny (memfs []) ''d'' (Dir [(''d'', Dir [(''x'', File)])])
            = (Some e, Dir [(''d'', Dir [(''x'', File)])])
        \<and> errors_Is e ErrPermission \<and> Contains (Error e) ''Directory is not empty'')
   \<and> (\<exists>e. RemoveAny (memfs [''f'']) ''f'' (Dir [(''f'', File)]) = (Some e, Dir [(''f'', File)])
        \<and> errors_Is e ErrInvalid)
   \<and> fst (RemoveAny (memfs []) ''f'' (Dir [(''f'', File)])) = None"
  using RemoveAny_classification [of "memfs []" "''gone''" "Dir [(''f'', File)]"]
    RemoveAny_classification [of "memfs []" "''d''" "Dir [(''d'', Dir [(''x'', File)])]"]
    RemoveAny_classification [of "memfs [''f'']" "''f''" "Dir [(''f'', File)]"]
    RemoveAny_classification [of "memfs []" "''f''" "Dir [(''f'', File)]"]
  by (simp add: Stat_def DeleteDir_def DeleteFile_def memfs_def mem_Stat_def mem_Rmdir_def
      mem_Delete_def info_of_def) blast

text \<open>
  C10: \<open>Close\<close> of the SFTP producer returns what closing the SSH client returns, on the
  state the SFTP client's close left; the error of closing the SFTP client is dropped, so
  with a clean SSH close the caller sees nil.
\<close>

theorem Close_returns_ssh_result:
  "Close p s = clientSSH_Close p (snd (clientSFTP_Close p s))
   \<and> (\<forall>e s1 s2. clientSFTP_Close p s = (Some e, s1) \<and> clientSSH_Close p s1 = (None, s2)
        \<longrightarrow> Close p s = (None, s2))"
  by (auto simp: Close_def split: prod.splits)

theorem Close_returns_ssh_result_witness:
  "clientSFTP_Close \<lparr>clientSFTP_Close = (\<lambda>s. (Some refused, Suc s)),
                     clientSSH_Close = (\<lambda>s. (None, Suc s)),
            clientSFTP_Remove = (\<lambda>path s. (None, s)),
            clientSFTP_RemoveDirectory = (\<lambda>path s. (None, s)),
            clientSFTP_ReadDir = (\<lambda>path s. (Inr [], s))\<rparr> (0::nat) = (Some refused, 1)
   \<and> Close \<lparr>clientSFTP_Close = (\<lambda>s. (Some refused, Suc s)),
            clientSSH_Close = (\<lambda>s. (None, Suc s)),
            clientSFTP_Remove = (\<lambda>path s. (None, s)),
            clientSFTP_RemoveDirectory = (\<lambda>path s. (None, s)),
            clientSFTP_ReadDir = (\<lambda>path s. (Inr [], s))\<rparr> (0::nat) = (None, 2)"
  using Close_returns_ssh_result
    [of "\<lparr>clientSFTP_Close = (\<lambda>s. (Some refused, Suc s)),
          clientSSH_Close = (\<lambda>s. (None, Suc s)),
            clientSFTP_Remove = (\<lambda>path s. (None, s)),
            clientSFTP_RemoveDirectory = (\<lambda>path s. (None, s)),
            clientSFTP_ReadDir = (\<lambda>path s. (Inr [], s))\<rparr>" "0::nat"]
  by simp

subsection \<open>NotExist is never surfaced\<close>

lemma absorbed_simps [simp]:
  "absorbed None" "absorbed (Some e) = (\<not> errors_Is e ErrNotExist)"
  by (simp_all add: absorbed_def)

lemma range_names_absorbed:
  assumes rec: "\<forall>q s r s'. rec q s = Some (r, s') \<longrightarrow> absorbed r"
  shows "range_names rec path names err k s = Some ((err', k'), s') \<Longrightarrow> absorbed err
         \<Longrightarrow> absorbed err'"
proof (induction names arbitrary: err k s)
  case Nil
  then show ?case by simp
next
  case (Cons name rest)
  show ?case
  proof (cases "rec (path @ ''/'' @ name) s")
    case None
    with Cons.prems(1) show ?thesis by simp
  next
    case (Some a)
    obtain err1 s1 where a: "a = (err1, s1)" by (cases a)
    have c: "range_names rec path rest (if err = None then err1 else err)
          (if err1 \<noteq> None then k + 1 else k) s1 = Some ((err', k'), s')"
      using Cons.prems(1) Some a by simp
    have "absorbed err1" using rec Some a by blast
    then have "absorbed (if err = None then err1 else err)"
      using Cons.prems(2) by simp
    with c show ?thesis by (rule Cons.IH)
  qed
qed

lemma retry_loop_pass:
  assumes "length (names @ map Name infos) \<noteq> 0"
    and "range_names rec path (names @ map Name infos) err 0 s = Some ((err', numErr), s1)"
  shows "retry_loop p rec (Suc k) path infos entities names err s =
     (if numErr \<noteq> entities then Some (Break, s1)
      else if length (names @ map Name infos) < entities then
        (case RemoveAny p path s1 of
           (None, s2) \<Rightarrow> Some (Return None, s2)
         | (Some err1, s2) \<Rightarrow>
             if errors_Is err1 ErrNotExist then Some (Return None, s2)
             else if err' \<noteq> None then Some (Return err', s2)
             else retry_loop p rec k path infos entities (names @ map Name infos) err' s2)
      else retry_loop p rec k path infos entities (names @ map Name infos) err' s1)"
  using assms by (simp only: retry_loop.simps if_not_P option.case prod.case if_False)

lemma retry_loop_absorbed:
  assumes rec: "\<forall>q s r s'. rec q s = Some (r, s') \<longrightarrow> absorbed r"
  shows "retry_loop p rec k path infos entities names err s = Some (Return r, s') \<Longrightarrow>
         absorbed err \<Longrightarrow> absorbed r"
proof (induction k arbitrary: names err s)
  case 0
  then show ?case by simp
next
  case (Suc k)
  let ?names = "names @ map Name infos"
  show ?case
  proof (cases "length ?names = 0")
    case True
    with Suc.prems(1) show ?thesis by (simp only: retry_loop.simps if_P) simp
  next
    case nonempty: False
    show ?thesis
    proof (cases "range_names rec path ?names err 0 s")
      case None
      with nonempty Suc.prems(1) show ?thesis
        by (simp only: retry_loop.simps if_not_P option.case) simp
    next
      case (Some a)
      obtain err' numErr s1 where a: "a = ((err', numErr), s1)" by (cases a) auto
      have rn: "range_names rec path ?names err 0 s = Some ((err', numErr), s1)"
        using Some a by simp
      have clean': "absorbed err'"
        using range_names_absorbed [OF rec rn] Suc.prems(2) .
      note step = Suc.prems(1) [unfolded retry_loop_pass [OF nonempty rn]]
      obtain x s2 where ra: "RemoveAny p path s1 = (x, s2)" by (cases "RemoveAny p path s1")
      from step ra consider (nil) "r = None" | (ret) "r = err'"
        | (loop) s3 where
          "retry_loop p rec k path infos entities ?names err' s3 = Some (Return r, s')"
        by (cases x) (auto split: if_splits)
      then show ?thesis
      proof cases
        case nil
        then show ?thesis by simp
      next
        case ret
        with clean' show ?thesis by simp
      next
        case loop
        then show ?thesis using clean' by (rule Suc.IH)
      qed
    qed
  qed
qed

lemma remove_directory_absorbed:
  "remove_directory p path s = (r, s') \<Longrightarrow> absorbed r"
  by (auto simp: remove_directory_def split: prod.splits option.splits if_splits)

lemma dir_loop_absorbed:
  assumes rec: "\<forall>q s r s'. rec q s = Some (r, s') \<longrightarrow> absorbed r"
  shows "dir_loop p rec k path s = Some (r, s') \<Longrightarrow> absorbed r"
proof (induction k arbitrary: s)
  case 0
  then show ?case by simp
next
  case (Suc k)
  obtain l s1 where rd: "ReadDir p path s = (l, s1)" by (cases "ReadDir p path s")
  show ?case
  proof (cases l)
    case (Inl err)
    with Suc.prems rd show ?thesis by (auto split: if_splits)
  next
    case (Inr infos)
    show ?thesis
    proof (cases "length infos = 0")
      case True
      with Suc.prems rd Inr show ?thesis by (auto dest: remove_directory_absorbed)
    next
      case False
      show ?thesis
      proof (cases "retry_loop p rec (Suc k) path infos (length infos) [] None s1")
        case None
        with Suc.prems rd Inr False show ?thesis by simp
      next
        case (Some a)
        obtain x s2 where a: "a = (x, s2)" by (cases a)
        have rl: "retry_loop p rec (Suc k) path infos (length infos) [] None s1 = Some (x, s2)"
          using Some a by simp
        show ?thesis
      proof (cases x)
        case Break
        with Suc.prems rd Inr False rl have "dir_loop p rec k path s2 = Some (r, s')" by simp
        then show ?thesis by (rule Suc.IH)
      next
        case BreakDIR
        with Suc.prems rd Inr False rl show ?thesis by (auto dest: remove_directory_absorbed)
      next
        case (Return r')
        with Suc.prems rd Inr False rl have "r' = r" by simp
        with rl Return have "retry_loop p rec (Suc k) path infos (length infos) [] None s1
            = Some (Return r, s2)" by simp
        then show ?thesis by (rule retry_loop_absorbed [OF rec]) simp
      qed
      qed
    qed
  qed
qed

lemma RemoveAllRecursive_absorbed:
  "RemoveAllRecursive p n path s = Some (r, s') \<Longrightarrow> absorbed r"
proof (induction n arbitrary: path s r s')
  case 0
  then show ?case by (auto split: if_splits)
next
  case (Suc n)
  show ?case
  proof (cases "path = []")
    case True
    with Suc.prems show ?thesis by auto
  next
    case False
    obtain x s1 where ra: "RemoveAny p path s = (x, s1)" by (cases "RemoveAny p path s")
    show ?thesis
    proof (cases x)
      case None
      with Suc.prems False ra show ?thesis by auto
    next
      case (Some err)
      show ?thesis
      proof (cases "errors_Is err ErrNotExist \<or> \<not> Contains (Error err) ''Directory is not empty''")
        case True
        with Suc.prems False ra Some show ?thesis by (auto split: if_splits)
      next
        case f: False
        with Suc.prems False ra Some
        have "dir_loop p (RemoveAllRecursive p n) (Suc n) path s1 = Some (r, s')"
          by simp
        moreover have "\<forall>q s r s'. RemoveAllRecursive p n q s = Some (r, s') \<longrightarrow> absorbed r"
          using Suc.IH by blast
        ultimately show ?thesis by (rule dir_loop_absorbed [rotated])
      qed
    qed
  qed
qed

text \<open>
  C5: whatever the client does, the error \<open>RemoveAllRecursive\<close> returns is never of class
  NotExist. Where the first \<open>RemoveAny\<close> or the final one fails with NotExist the result
  is nil, and so it is where the listing fails with NotExist; a child whose removal meets
  NotExist is itself a call of \<open>RemoveAllRecursive\<close>, so it returns nil to the loop.
\<close>

theorem RemoveAllRecursive_absorbs_NotExist:
  "(\<forall>e s'. RemoveAllRecursive p n path s = Some (Some e, s') \<longrightarrow> \<not> errors_Is e ErrNotExist)
   \<and> (\<forall>e s1. path \<noteq> [] \<and> RemoveAny p path s = (Some e, s1) \<and> errors_Is e ErrNotExist \<longrightarrow>
        RemoveAllRecursive p (Suc n) path s = Some (None, s1)
        \<and> remove_directory p path s = (None, s1))
   \<and> (\<forall>e s1. ReadDir p path s = (Inl e, s1) \<and> errors_Is e ErrNotExist \<longrightarrow>
        dir_loop p rec (Suc n) path s = Some (None, s1))"
proof (intro conjI allI impI)
  fix e s'
  assume "RemoveAllRecursive p n path s = Some (Some e, s')"
  then have "absorbed (Some e)" by (rule RemoveAllRecursive_absorbed)
  then show "\<not> errors_Is e ErrNotExist" by simp
next
  fix e s1
  assume a: "path \<noteq> [] \<and> RemoveAny p path s = (Some e, s1) \<and> errors_Is e ErrNotExist"
  show "RemoveAllRecursive p (Suc n) path s = Some (None, s1)"
    using a by simp
  show "remove_directory p path s = (None, s1)"
    using a by (simp add: remove_directory_def)
next
  fix e s1
  assume "ReadDir p path s = (Inl e, s1) \<and> errors_Is e ErrNotExist"
  then show "dir_loop p rec (Suc n) path s = Some (None, s1)" by simp
qed

theorem RemoveAllRecursive_absorbs_NotExist_witness:
  "(\<exists>e s'. RemoveAllRecursive (memfs [''f'']) (Suc 0) ''f'' (Dir [(''f'', File)]) = Some (Some e, s')
       \<and> \<not> errors_Is e ErrNotExist)
   \<and> (\<exists>e. RemoveAny (memfs []) ''gone'' (Dir []) = (Some e, Dir []) \<and> errors_Is e ErrNotExist)
   \<and> RemoveAllRecursive (memfs []) (Suc 0) ''gone'' (Dir []) = Some (None, Dir [])
   \<and> remove_directory (memfs []) ''gone'' (Dir []) = (None, Dir [])
   \<and> (\<exists>e. ReadDir (memfs []) ''gone'' (Dir []) = (Inl e, Dir []) \<and> errors_Is e ErrNotExist)
   \<and> dir_loop (memfs []) (RemoveAllRecursive (memfs []) 0) (Suc 0) ''gone'' (Dir [])
       = Some (None, Dir [])"
  using RemoveAllRecursive_absorbs_NotExist
      [of "memfs [''f'']" "Suc 0" "''f''" "Dir [(''f'', File)]"]
    RemoveAllRecursive_absorbs_NotExist
      [of "memfs []" 0 "''gone''" "Dir []" "RemoveAllRecursive (memfs []) 0"]
  by (simp add: RemoveAny_def Stat_def ReadDir_def DeleteFile_def memfs_def mem_Stat_def
      mem_ReadDir_def mem_Delete_def info_of_def Errorf_w_def errors_Is_def not_found_def
      refused_def)

subsection \<open>Fuel\<close>

text \<open>
  More fuel never changes a result, so a result found with some fuel is the result of the
  call, and a call that has none for any fuel does not return.
\<close>

lemma range_names_more_fuel:
  assumes ext: "\<forall>q s r. rec q s = Some r \<longrightarrow> rec' q s = Some r"
  shows "range_names rec path names err k s = Some r \<Longrightarrow>
         range_names rec' path names err k s = Some r"
proof (induction names arbitrary: err k s)
  case Nil
  then show ?case by simp
next
  case (Cons name rest)
  show ?case
  proof (cases "rec (path @ ''/'' @ name) s")
    case None
    with Cons.prems show ?thesis by simp
  next
    case (Some a)
    obtain err1 s1 where a: "a = (err1, s1)" by (cases a)
    have "rec' (path @ ''/'' @ name) s = Some (err1, s1)" using ext Some a by simp
    moreover have "range_names rec' path rest (if err = None then err1 else err)
        (if err1 \<noteq> None then k + 1 else k) s1 = Some r"
      using Cons.prems Some a by (intro Cons.IH) simp
    ultimately show ?thesis by simp
  qed
qed

lemma retry_loop_more_fuel:
  assumes ext: "\<forall>q s r. rec q s = Some r \<longrightarrow> rec' q s = Some r"
  shows "retry_loop p rec k path infos entities names err s = Some r \<Longrightarrow> k \<le> k' \<Longrightarrow>
         retry_loop p rec' k' path infos entities names err s = Some r"
proof (induction k arbitrary: k' names err s)
  case 0
  then show ?case by simp
next
  case (Suc k)
  from Suc.prems(2) obtain j where k': "k' = Suc j" and kj: "k \<le> j" by (cases k') auto
  let ?names = "names @ map Name infos"
  show ?case
  proof (cases "length ?names = 0")
    case True
    with Suc.prems(1) show ?thesis unfolding k' by (simp only: retry_loop.simps if_P)
  next
    case nonempty: False
    show ?thesis
    proof (cases "range_names rec path ?names err 0 s")
      case None
      with nonempty Suc.prems(1) show ?thesis
        by (simp only: retry_loop.simps if_not_P option.case) simp
    next
      case (Some a)
      obtain err' numErr s1 where a: "a = ((err', numErr), s1)" by (cases a) auto
      have rn: "range_names rec path ?names err 0 s = Some ((err', numErr), s1)"
        using Some a by simp
      have rn': "range_names rec' path ?names err 0 s = Some ((err', numErr), s1)"
        using range_names_more_fuel [OF ext rn] .
      note step = Suc.prems(1) [unfolded retry_loop_pass [OF nonempty rn]]
      have IH: "\<And>s2. retry_loop p rec k path infos entities ?names err' s2 = Some r \<Longrightarrow>
          retry_loop p rec' j path infos entities ?names err' s2 = Some r"
        using Suc.IH kj by blast
      obtain x s2 where ra: "RemoveAny p path s1 = (x, s2)" by (cases "RemoveAny p path s1")
      show ?thesis
        unfolding k' retry_loop_pass [OF nonempty rn']
        using step ra IH by (cases x) (auto split: if_splits)
    qed
  qed
qed

lemma dir_loop_more_fuel:
  assumes ext: "\<forall>q s r. rec q s = Some r \<longrightarrow> rec' q s = Some r"
  shows "dir_loop p rec k path s = Some r \<Longrightarrow> k \<le> k' \<Longrightarrow>
         dir_loop p rec' k' path s = Some r"
proof (induction k arbitrary: k' s)
  case 0
  then show ?case by simp
next
  case (Suc k)
  from Suc.prems(2) obtain j where k': "k' = Suc j" and kj: "k \<le> j" by (cases k') auto
  obtain l s1 where rd: "ReadDir p path s = (l, s1)" by (cases "ReadDir p path s")
  show ?case
  proof (cases l)
    case (Inl err)
    with Suc.prems(1) rd show ?thesis unfolding k' by simp
  next
    case (Inr infos)
    show ?thesis
    proof (cases "length infos = 0")
      case True
      with Suc.prems(1) rd Inr show ?thesis unfolding k' by simp
    next
      case False
      show ?thesis
      proof (cases "retry_loop p rec (Suc k) path infos (length infos) [] None s1")
        case None
        with Suc.prems(1) rd Inr False show ?thesis by simp
      next
        case (Some a)
        obtain x s2 where a: "a = (x, s2)" by (cases a)
        have rl: "retry_loop p rec (Suc k) path infos (length infos) [] None s1 = Some (x, s2)"
          using Some a by simp
        have rl': "retry_loop p rec' (Suc j) path infos (length infos) [] None s1
            = Some (x, s2)"
          by (rule retry_loop_more_fuel [OF ext rl]) (use kj in simp)
        show ?thesis
        proof (cases x)
          case Break
          with Suc.prems(1) rd Inr False rl have "dir_loop p rec k path s2 = Some r" by simp
          then have "dir_loop p rec' j path s2 = Some r" using kj by (rule Suc.IH)
          with rd Inr False rl' Break show ?thesis unfolding k' by simp
        next
          case BreakDIR
          with Suc.prems(1) rd Inr False rl rl' show ?thesis unfolding k' by simp
        next
          case (Return r')
          with Suc.prems(1) rd Inr False rl rl' show ?thesis unfolding k' by simp
        qed
      qed
    qed
  qed
qed

lemma RemoveAllRecursive_more_fuel:
  "RemoveAllRecursive p n path s = Some r \<Longrightarrow> n \<le> m \<Longrightarrow>
     RemoveAllRecursive p m path s = Some r"
proof (induction n arbitrary: m path s r)
  case 0
  then show ?case by (cases m) (auto split: if_splits)
next
  case (Suc n)
  from Suc.prems(2) obtain j where m: "m = Suc j" and nj: "n \<le> j" by (cases m) auto
  have ext: "\<forall>q s r. RemoveAllRecursive p n q s = Some r \<longrightarrow>
      RemoveAllRecursive p j q s = Some r"
    using Suc.IH nj by blast
  show ?case
  proof (cases "path = []")
    case True
    with Suc.prems(1) show ?thesis unfolding m by simp
  next
    case False
    obtain x s1 where ra: "RemoveAny p path s = (x, s1)" by (cases "RemoveAny p path s")
    show ?thesis
    proof (cases x)
      case None
      with Suc.prems(1) False ra show ?thesis unfolding m by auto
    next
      case (Some err)
      show ?thesis
      proof (cases "errors_Is err ErrNotExist
          \<or> \<not> Contains (Error err) ''Directory is not empty''")
        case True
        with Suc.prems(1) False ra Some show ?thesis unfolding m by auto
      next
        case f: False
        with Suc.prems(1) False ra Some
        have "dir_loop p (RemoveAllRecursive p n) (Suc n) path s1 = Some r" by simp
        then have "dir_loop p (RemoveAllRecursive p j) (Suc j) path s1 = Some r"
          by (rule dir_loop_more_fuel [OF ext]) (use nj in simp)
        with False ra Some f show ?thesis unfolding m by auto
      qed
    qed
  qed
qed

subsection \<open>Removing a tree every entry of which is removable\<close>

lemma split_path_not_Nil [simp]: "split_path path \<noteq> []"
  by (induction path) (auto split: list.splits)

lemma split_path_no_slash: "CHR ''/'' \<notin> set name \<Longrightarrow> split_path name = [name]"
  by (induction name) auto

lemma split_path_child:
  "CHR ''/'' \<notin> set name \<Longrightarrow> split_path (path @ ''/'' @ name) = split_path path @ [name]"
proof (induction path)
  case Nil
  then show ?case by (simp add: split_path_no_slash)
next
  case (Cons c path)
  then show ?case by (cases "split_path path") auto
qed

lemma resolve_snoc:
  "resolve (ps @ [c]) t =
     (case resolve ps t of Some (Dir es) \<Rightarrow> map_of es c | _ \<Rightarrow> None)"
proof (induction ps t rule: resolve.induct)
  case (1 t)
  then show ?case by (cases t) (auto split: option.splits)
next
  case (2 c cs)
  then show ?case by simp
next
  case (3 c cs es)
  then show ?case by (auto split: option.splits)
qed

lemma resolve_remove_snoc:
  "resolve ps t = Some (Dir es) \<Longrightarrow>
     resolve ps (remove (ps @ [c]) t) = Some (Dir (AList.delete c es))"
proof (induction ps t rule: resolve.induct)
  case (1 t)
  then show ?case by simp
next
  case (2 c cs)
  then show ?case by simp
next
  case (3 a cs es0)
  then show ?case
    by (auto simp: map_of_map_entry split: option.splits)
qed

lemma delete_map_entry: "AList.delete k (AList.map_entry k f al) = AList.delete k al"
  by (induction al) auto

lemma map_entry_twice:
  "AList.map_entry k f (AList.map_entry k g al) = AList.map_entry k (f \<circ> g) al"
  by (induction al) auto

lemma remove_remove_snoc: "ps \<noteq> [] \<Longrightarrow> remove ps (remove (ps @ [c]) t) = remove ps t"
proof (induction ps arbitrary: t)
  case Nil
  then show ?case by simp
next
  case (Cons a ps)
  show ?case
  proof (cases t)
    case File
    then show ?thesis by simp
  next
    case (Dir es)
    show ?thesis
    proof (cases "ps = []")
      case True
      with Dir show ?thesis by (simp add: delete_map_entry)
    next
      case False
      then have "remove ps \<circ> remove (ps @ [c]) = remove ps"
        using Cons.IH by (simp add: fun_eq_iff)
      with Dir False show ?thesis by (simp add: map_entry_twice)
    qed
  qed
qed

lemma resolve_remove_self: "ps \<noteq> [] \<Longrightarrow> resolve ps (remove ps t) = None"
proof (induction ps arbitrary: t)
  case Nil
  then show ?case by simp
next
  case (Cons a ps)
  show ?case
  proof (cases t)
    case File
    then show ?thesis by simp
  next
    case (Dir es)
    show ?thesis
    proof (cases "ps = []")
      case True
      with Dir show ?thesis by (simp add: delete_conv')
    next
      case False
      with Dir Cons.IH show ?thesis
        by (auto simp: map_of_map_entry split: option.splits)
    qed
  qed
qed


lemma fold_max_ge: "(a::nat) \<le> fold max xs a"
  by (induction xs arbitrary: a) (auto intro: order_trans [OF max.cobounded2])

lemma fold_max_member: "(x::nat) \<in> set xs \<Longrightarrow> x \<le> fold max xs a"
proof (induction xs arbitrary: a)
  case Nil
  then show ?case by simp
next
  case (Cons y ys)
  show ?case
  proof (cases "x = y")
    case True
    have "max y a \<le> fold max ys (max y a)" by (rule fold_max_ge)
    with True show ?thesis by simp
  next
    case False
    with Cons show ?thesis by simp
  qed
qed

lemma height_child: "(name, sub) \<in> set es \<Longrightarrow> height sub < height (Dir es)"
proof -
  assume "(name, sub) \<in> set es"
  then have "height sub \<in> set (map (\<lambda>(name, sub). height sub) es)" by force
  then have "height sub \<le> fold max (map (\<lambda>(name, sub). height sub) es) 0"
    by (rule fold_max_member)
  then show ?thesis by simp
qed

lemma Name_info_of: "map Name (map (\<lambda>(name, sub). info_of name sub) es) = map fst es"
  by (induction es) (auto simp: info_of_def)

lemma RemoveAny_mem_absent:
  "resolve (split_path path) t = None \<Longrightarrow>
     RemoveAny (memfs locked) path t
       = (Some (Errorf_w (path @ '': '' @ Error not_found @ '': '') ErrNotExist), t)"
  by (simp add: RemoveAny_def Stat_def memfs_def mem_Stat_def)

lemma RemoveAny_mem_file:
  "resolve (split_path path) t = Some File \<Longrightarrow> path \<notin> set locked \<Longrightarrow>
     RemoveAny (memfs locked) path t = (None, remove (split_path path) t)"
  by (simp add: RemoveAny_def Stat_def DeleteFile_def memfs_def mem_Stat_def mem_Delete_def
      info_of_def)

lemma RemoveAny_mem_locked_file:
  "resolve (split_path path) t = Some File \<Longrightarrow> path \<in> set locked \<Longrightarrow>
     RemoveAny (memfs locked) path t
       = (Some (Errorf_w (path @ '': '' @ Error refused @ '': '') ErrInvalid), t)"
  by (simp add: RemoveAny_def Stat_def DeleteFile_def memfs_def mem_Stat_def mem_Delete_def
      info_of_def)

lemma RemoveAny_mem_empty_dir:
  "resolve (split_path path) t = Some (Dir []) \<Longrightarrow> path \<notin> set locked \<Longrightarrow>
     RemoveAny (memfs locked) path t = (None, remove (split_path path) t)"
  by (simp add: RemoveAny_def Stat_def DeleteDir_def memfs_def mem_Stat_def mem_Rmdir_def
      info_of_def)

lemma RemoveAny_mem_nonempty_dir:
  "resolve (split_path path) t = Some (Dir es) \<Longrightarrow> es \<noteq> [] \<Longrightarrow>
     RemoveAny (memfs locked) path t
       = (Some (Errorf_w (path @ '': '' @ Error not_empty @ '': Directory is not empty: '')
            ErrPermission), t)"
  by (simp add: RemoveAny_def Stat_def DeleteDir_def memfs_def mem_Stat_def mem_Rmdir_def
      info_of_def)

lemma ReadDir_mem_dir:
  "resolve (split_path path) t = Some (Dir es) \<Longrightarrow>
     ReadDir (memfs locked) path t = (Inr (map (\<lambda>(name, sub). info_of name sub) es), t)"
  by (simp add: ReadDir_def memfs_def mem_ReadDir_def)

lemma not_empty_error_continues:
  "\<not> errors_Is (Errorf_w (path @ '': '' @ msg @ '': Directory is not empty: '') ErrPermission)
       ErrNotExist"
  "Contains (Error (Errorf_w (path @ '': '' @ msg @ '': Directory is not empty: '')
       ErrPermission)) ''Directory is not empty''"
proof -
  show "\<not> errors_Is (Errorf_w (path @ '': '' @ msg @ '': Directory is not empty: '')
       ErrPermission) ErrNotExist"
    by (simp add: errors_Is_def Errorf_w_def)
  have "Contains ((path @ '': '' @ msg @ '': '') @ ''Directory is not empty''
      @ '': '' @ sentinel_text ErrPermission) ''Directory is not empty''"
    by (rule Contains_append)
  then show "Contains (Error (Errorf_w (path @ '': '' @ msg @ '': Directory is not empty: '')
       ErrPermission)) ''Directory is not empty''"
    by (simp add: Errorf_w_def)
qed

lemma RemoveAllRecursive_descends:
  "path \<noteq> [] \<Longrightarrow> RemoveAny p path s = (Some err, s1) \<Longrightarrow> \<not> errors_Is err ErrNotExist \<Longrightarrow>
     Contains (Error err) ''Directory is not empty'' \<Longrightarrow>
     RemoveAllRecursive p (Suc n) path s = dir_loop p (RemoveAllRecursive p n) (Suc n) path s1"
  by simp

lemma range_names_children:
  assumes rec: "\<forall>(name, sub) \<in> set cs. \<forall>t. resolve (ps @ [name]) t = Some sub \<longrightarrow>
      rec (path @ ''/'' @ name) t = Some (None, remove (ps @ [name]) t)"
    and dist: "distinct (map fst cs)" and ps: "ps \<noteq> []"
    and res: "resolve ps t = Some (Dir cs)"
  shows "\<exists>t'. range_names rec path (map fst cs) None 0 t = Some ((None, 0), t')
           \<and> resolve ps t' = Some (Dir []) \<and> remove ps t' = remove ps t"
  using rec dist res
proof (induction cs arbitrary: t)
  case Nil
  then show ?case by simp
next
  case (Cons a rest)
  obtain c sub where a: "a = (c, sub)" by (cases a)
  let ?t1 = "remove (ps @ [c]) t"
  have "resolve (ps @ [c]) t = Some sub"
    using Cons.prems(3) a by (simp add: resolve_snoc)
  then have call: "rec (path @ ''/'' @ c) t = Some (None, ?t1)"
    using Cons.prems(1) a by simp
  have "c \<notin> fst ` set rest" using Cons.prems(2) a by simp
  then have "AList.delete c (a # rest) = rest" using a by simp
  then have res1: "resolve ps ?t1 = Some (Dir rest)"
    using resolve_remove_snoc [OF Cons.prems(3), of c] by simp
  have "\<exists>t'. range_names rec path (map fst rest) None 0 ?t1 = Some ((None, 0), t')
           \<and> resolve ps t' = Some (Dir []) \<and> remove ps t' = remove ps ?t1"
    using Cons.prems(1,2) res1 by (intro Cons.IH) auto
  then show ?case
    using call a ps by (auto simp: remove_remove_snoc)
qed

lemma RemoveAllRecursive_removes_tree:
  "wf_node sub \<Longrightarrow> path \<noteq> [] \<Longrightarrow> resolve (split_path path) t = Some sub \<Longrightarrow>
     height sub < n \<Longrightarrow>
     RemoveAllRecursive (memfs []) n path t = Some (None, remove (split_path path) t)"
proof (induction sub arbitrary: path t n)
  case File
  then obtain m where n: "n = Suc m" by (cases n) auto
  show ?case using File.prems(2,3) by (simp add: n RemoveAny_mem_file)
next
  case (Dir es)
  let ?p = "memfs []"
  let ?ps = "split_path path"
  from Dir.prems(4) obtain m where n: "n = Suc m" and m: "0 < m" by (cases n) auto
  show ?case
  proof (cases "es = []")
    case True
    with Dir.prems(2,3) show ?thesis by (simp add: n RemoveAny_mem_empty_dir)
  next
    case False
    let ?rec = "RemoveAllRecursive ?p m"
    let ?infos = "map (\<lambda>(name, sub). info_of name sub) es"
    have rec: "\<forall>(name, sub) \<in> set es. \<forall>t. resolve (?ps @ [name]) t = Some sub \<longrightarrow>
      ?rec (path @ ''/'' @ name) t = Some (None, remove (?ps @ [name]) t)"
    proof (intro ballI allI impI, clarify)
      fix name sub t'
      assume mem: "(name, sub) \<in> set es" and r: "resolve (?ps @ [name]) t' = Some sub"
      have wf: "wf_node sub" and slash: "CHR ''/'' \<notin> set name"
        using Dir.prems(1) mem by auto
      have sp: "split_path (path @ ''/'' @ name) = ?ps @ [name]"
        using slash by (rule split_path_child)
      have h: "height sub < m" using height_child [OF mem] Dir.prems(4) n by simp
      have "sub \<in> Basic_BNFs.snds (name, sub)" by simp
      from Dir.IH [OF mem this wf _ _ h, of "path @ ''/'' @ name" t'] r sp
      show "?rec (path @ ''/'' @ name) t' = Some (None, remove (?ps @ [name]) t')"
        by simp
    qed
    have dist: "distinct (map fst es)" using Dir.prems(1) by simp
    obtain t' where
      rn: "range_names ?rec path (map fst es) None 0 t = Some ((None, 0), t')" and
      res': "resolve ?ps t' = Some (Dir [])" and rem': "remove ?ps t' = remove ?ps t"
      using range_names_children [OF rec dist _ Dir.prems(3)] by auto
    have len: "length ([] @ map Name ?infos) \<noteq> 0" using False by simp
    have rn': "range_names ?rec path ([] @ map Name ?infos) None 0 t = Some ((None, 0), t')"
      using rn by (simp only: append_Nil Name_info_of)
    have retry: "retry_loop ?p ?rec (Suc m) path ?infos (length ?infos) [] None t
        = Some (Break, t')"
      by (subst retry_loop_pass [OF len rn']) (use False in simp)
    obtain k where mk: "m = Suc k" using m by (cases m) auto
    have second: "dir_loop ?p ?rec m path t' = Some (None, remove ?ps t)"
      using res' rem' by (simp add: mk ReadDir_mem_dir remove_directory_def
          RemoveAny_mem_empty_dir)
    have first: "dir_loop ?p ?rec (Suc m) path t = Some (None, remove ?ps t)"
      using False retry second by (simp add: ReadDir_mem_dir [OF Dir.prems(3)])
    have "RemoveAllRecursive ?p (Suc m) path t = dir_loop ?p ?rec (Suc m) path t"
      by (rule RemoveAllRecursive_descends [OF Dir.prems(2)
            RemoveAny_mem_nonempty_dir [OF Dir.prems(3) False] not_empty_error_continues])
    with first show ?thesis by (simp only: n)
  qed
qed


lemma wf_node_resolve: "wf_node t \<Longrightarrow> resolve ps t = Some sub \<Longrightarrow> wf_node sub"
proof (induction ps t rule: resolve.induct)
  case (1 t)
  then show ?case by simp
next
  case (2 c cs)
  then show ?case by simp
next
  case (3 c cs es)
  from "3.prems"(2) obtain t' where t': "map_of es c = Some t'" and r: "resolve cs t' = Some sub"
    by (auto split: option.splits)
  from t' have "(c, t') \<in> set es" by (rule map_of_SomeD)
  with "3.prems"(1) have "wf_node t'" by auto
  with "3.IH" t' r show ?case by simp
qed

lemma map_entry_fixed:
  "(\<And>v. map_of al k = Some v \<Longrightarrow> f v = v) \<Longrightarrow> AList.map_entry k f al = al"
  by (induction al) (auto split: if_splits)

lemma remove_absent: "resolve ps t = None \<Longrightarrow> remove ps t = t"
proof (induction ps t rule: resolve.induct)
  case (1 t)
  then show ?case by simp
next
  case (2 c cs)
  then show ?case by simp
next
  case (3 c cs es)
  show ?case
  proof (cases "map_of es c")
    case None
    then have "c \<notin> fst ` set es" by (simp add: map_of_eq_None_iff)
    then have "AList.delete c es = es" by simp
    moreover have "AList.map_entry c (remove cs) es = es"
      using None by (intro map_entry_fixed) simp
    ultimately show ?thesis by simp
  next
    case (Some t')
    with "3.prems" have r: "resolve cs t' = None" by simp
    then have ne: "cs \<noteq> []" by auto
    have "remove cs t' = t'" using "3.IH" Some r by simp
    then have "AList.map_entry c (remove cs) es = es"
      using Some by (intro map_entry_fixed) simp
    with ne show ?thesis by simp
  qed
qed

lemma resolve_append_None: "resolve ps t = None \<Longrightarrow> resolve (ps @ qs) t = None"
  by (induction ps t rule: resolve.induct) (auto split: option.splits)

lemma sftp_retry_loop_pass:
  assumes "length (names @ map Name infos) \<noteq> 0"
    and "range_names rec path (names @ map Name infos) err 0 s = Some ((err', numErr), s1)"
  shows "sftp_retry_loop rec (Suc k) path infos entities names err s =
     (if numErr \<noteq> entities then Some (Break, names @ map Name infos, err', s1)
      else sftp_retry_loop rec k path infos entities (names @ map Name infos) err' s1)"
  using assms by (simp only: sftp_retry_loop.simps if_not_P option.case prod.case if_False)

lemma sftp_Remove_mem_file:
  "resolve (split_path path) t = Some File \<Longrightarrow>
     sftp_Remove (sftp_memfs []) path t = (None, remove (split_path path) t)"
  by (simp add: sftp_Remove_def sftp_memfs_def mem_Remove_def)

lemma sftp_Remove_mem_empty_dir:
  "resolve (split_path path) t = Some (Dir []) \<Longrightarrow>
     sftp_Remove (sftp_memfs []) path t = (None, remove (split_path path) t)"
  by (simp add: sftp_Remove_def sftp_memfs_def mem_Remove_def)

lemma sftp_Remove_mem_nonempty_dir:
  "resolve (split_path path) t = Some (Dir es) \<Longrightarrow> es \<noteq> [] \<Longrightarrow>
     sftp_Remove (sftp_memfs []) path t = (Some sftp_not_empty, t)"
  by (simp add: sftp_Remove_def sftp_memfs_def mem_Remove_def sftp_not_empty_def)

lemma sftp_Remove_mem_absent:
  "resolve (split_path path) t = None \<Longrightarrow>
     sftp_Remove (sftp_memfs []) path t = (Some not_found, t)"
  by (simp add: sftp_Remove_def sftp_memfs_def mem_Remove_def not_found_def)

lemma sftp_ReadDir_mem_dir:
  "resolve (split_path path) t = Some (Dir es) \<Longrightarrow>
     sftp_ReadDir (sftp_memfs []) path t = (Inr (map (\<lambda>(name, sub). info_of name sub) es), t)"
  by (simp add: sftp_ReadDir_def sftp_memfs_def mem_ReadDir_def)

lemma sftp_remove_directory_mem_empty_dir:
  "resolve (split_path path) t = Some (Dir []) \<Longrightarrow>
     sftp_remove_directory (sftp_memfs []) path t = (None, remove (split_path path) t)"
  by (simp add: sftp_remove_directory_def sftp_DeleteDir_def sftp_memfs_def mem_Rmdir_def)

lemma sftp_not_empty_continues:
  "\<not> errors_Is sftp_not_empty ErrNotExist"
  "Contains (Error sftp_not_empty) ''Directory is not empty''"
  by (simp_all add: sftp_not_empty_def errors_Is_def)

lemma sftp_RemoveAllRecursive_descends:
  "path \<noteq> [] \<Longrightarrow> sftp_Remove p path s = (Some err, s1) \<Longrightarrow> \<not> errors_Is err ErrNotExist \<Longrightarrow>
     Contains (Error err) ''Directory is not empty'' \<Longrightarrow>
     sftp_RemoveAllRecursive p (Suc n) path s
       = sftp_dir_loop p (sftp_RemoveAllRecursive p n) (Suc n) path s1"
  by simp

lemma sftp_RemoveAllRecursive_removes_tree:
  "wf_node sub \<Longrightarrow> path \<noteq> [] \<Longrightarrow> resolve (split_path path) t = Some sub \<Longrightarrow>
     height sub < n \<Longrightarrow>
     sftp_RemoveAllRecursive (sftp_memfs []) n path t = Some (None, remove (split_path path) t)"
proof (induction sub arbitrary: path t n)
  case File
  then obtain m where n: "n = Suc m" by (cases n) auto
  show ?case using File.prems(2,3) by (simp add: n sftp_Remove_mem_file)
next
  case (Dir es)
  let ?p = "sftp_memfs []"
  let ?ps = "split_path path"
  from Dir.prems(4) obtain m where n: "n = Suc m" and m: "0 < m" by (cases n) auto
  show ?case
  proof (cases "es = []")
    case True
    with Dir.prems(2,3) show ?thesis by (simp add: n sftp_Remove_mem_empty_dir)
  next
    case False
    let ?rec = "sftp_RemoveAllRecursive ?p m"
    let ?infos = "map (\<lambda>(name, sub). info_of name sub) es"
    have rec: "\<forall>(name, sub) \<in> set es. \<forall>t. resolve (?ps @ [name]) t = Some sub \<longrightarrow>
      ?rec (path @ ''/'' @ name) t = Some (None, remove (?ps @ [name]) t)"
    proof (intro ballI allI impI, clarify)
      fix name sub t'
      assume mem: "(name, sub) \<in> set es" and r: "resolve (?ps @ [name]) t' = Some sub"
      have wf: "wf_node sub" and slash: "CHR ''/'' \<notin> set name"
        using Dir.prems(1) mem by auto
      have sp: "split_path (path @ ''/'' @ name) = ?ps @ [name]"
        using slash by (rule split_path_child)
      have h: "height sub < m" using height_child [OF mem] Dir.prems(4) n by simp
      have "sub \<in> Basic_BNFs.snds (name, sub)" by simp
      from Dir.IH [OF mem this wf _ _ h, of "path @ ''/'' @ name" t'] r sp
      show "?rec (path @ ''/'' @ name) t' = Some (None, remove (?ps @ [name]) t')"
        by simp
    qed
    have dist: "distinct (map fst es)" using Dir.prems(1) by simp
    obtain t' where
      rn: "range_names ?rec path (map fst es) None 0 t = Some ((None, 0), t')" and
      res': "resolve ?ps t' = Some (Dir [])" and rem': "remove ?ps t' = remove ?ps t"
      using range_names_children [OF rec dist _ Dir.prems(3)] by auto
    have len: "length ([] @ map Name ?infos) \<noteq> 0" using False by simp
    have rn': "range_names ?rec path ([] @ map Name ?infos) None 0 t = Some ((None, 0), t')"
      using rn by (simp only: append_Nil Name_info_of)
    have retry: "sftp_retry_loop ?rec (Suc m) path ?infos (length ?infos) [] None t
        = Some (Break, [] @ map Name ?infos, None, t')"
      by (subst sftp_retry_loop_pass [OF len rn']) (use False in simp)
    obtain k where mk: "m = Suc k" using m by (cases m) auto
    have second: "sftp_dir_loop ?p ?rec m path t' = Some (None, remove ?ps t)"
      using res' rem'
      by (simp add: mk sftp_ReadDir_mem_dir sftp_remove_directory_mem_empty_dir)
    have first: "sftp_dir_loop ?p ?rec (Suc m) path t = Some (None, remove ?ps t)"
      using False retry second by (simp add: sftp_ReadDir_mem_dir [OF Dir.prems(3)])
    have "sftp_RemoveAllRecursive ?p (Suc m) path t = sftp_dir_loop ?p ?rec (Suc m) path t"
      by (rule sftp_RemoveAllRecursive_descends [OF Dir.prems(2)
            sftp_Remove_mem_nonempty_dir [OF Dir.prems(3) False] sftp_not_empty_continues])
    with first show ?thesis by (simp only: n)
  qed
qed


text \<open>
  C1: on the in-memory server with nothing locked, for every well-formed tree and every
  non-empty path, \<open>RemoveAllRecursive\<close> of the FTP producer and of the SFTP producer return
  from some fuel on (they terminate), the result is nil, the state left is the tree with
  \<open>root\<close> cut out, and there nothing resolves at \<open>root\<close> or below it.
\<close>

theorem RemoveAllRecursive_removable_tree:
  assumes "wf_node t" and "root \<noteq> []"
  shows "(\<exists>N. \<forall>n\<ge>N. RemoveAllRecursive (memfs []) n root t
            = Some (None, remove (split_path root) t))
         \<and> (\<exists>N. \<forall>n\<ge>N. sftp_RemoveAllRecursive (sftp_memfs []) n root t
            = Some (None, remove (split_path root) t))
         \<and> (\<forall>qs. resolve (split_path root @ qs) (remove (split_path root) t) = None)"
proof (intro conjI)
  show "\<forall>qs. resolve (split_path root @ qs) (remove (split_path root) t) = None"
    by (simp add: resolve_append_None resolve_remove_self)
next
  show "\<exists>N. \<forall>n\<ge>N. RemoveAllRecursive (memfs []) n root t
            = Some (None, remove (split_path root) t)"
  proof (cases "resolve (split_path root) t")
    case None
    have "\<forall>n\<ge>Suc 0. RemoveAllRecursive (memfs []) n root t
            = Some (None, remove (split_path root) t)"
    proof (intro allI impI)
      fix n assume "Suc 0 \<le> n"
      then obtain m where "n = Suc m" by (cases n) auto
      then show "RemoveAllRecursive (memfs []) n root t
            = Some (None, remove (split_path root) t)"
        using assms(2) None
        by (simp add: RemoveAny_mem_absent remove_absent errors_Is_def Errorf_w_def)
    qed
    then show ?thesis by blast
  next
    case (Some sub)
    with assms(1) have "wf_node sub" by (rule wf_node_resolve)
    then have "\<forall>n\<ge>Suc (height sub). RemoveAllRecursive (memfs []) n root t
            = Some (None, remove (split_path root) t)"
      using assms(2) Some by (auto intro: RemoveAllRecursive_removes_tree)
    then show ?thesis by blast
  qed
next
  show "\<exists>N. \<forall>n\<ge>N. sftp_RemoveAllRecursive (sftp_memfs []) n root t
            = Some (None, remove (split_path root) t)"
  proof (cases "resolve (split_path root) t")
    case None
    have "\<forall>n\<ge>Suc 0. sftp_RemoveAllRecursive (sftp_memfs []) n root t
            = Some (None, remove (split_path root) t)"
    proof (intro allI impI)
      fix n assume "Suc 0 \<le> n"
      then obtain m where "n = Suc m" by (cases n) auto
      then show "sftp_RemoveAllRecursive (sftp_memfs []) n root t
            = Some (None, remove (split_path root) t)"
        using assms(2) None
        by (simp add: sftp_Remove_mem_absent remove_absent errors_Is_def not_found_def)
    qed
    then show ?thesis by blast
  next
    case (Some sub)
    with assms(1) have "wf_node sub" by (rule wf_node_resolve)
    then have "\<forall>n\<ge>Suc (height sub). sftp_RemoveAllRecursive (sftp_memfs []) n root t
            = Some (None, remove (split_path root) t)"
      using assms(2) Some by (auto intro: sftp_RemoveAllRecursive_removes_tree)
    then show ?thesis by blast
  qed
qed

theorem RemoveAllRecursive_removable_tree_witness:
  "wf_node (Dir [(''root'', Dir [(''a'', File), (''d'', Dir [(''x'', File), (''y'', Dir [])])]),
                 (''other'', File)])
   \<and> ''root'' \<noteq> []
   \<and> (\<exists>N. \<forall>n\<ge>N. RemoveAllRecursive (memfs []) n ''root''
         (Dir [(''root'', Dir [(''a'', File), (''d'', Dir [(''x'', File), (''y'', Dir [])])]),
               (''other'', File)])
        = Some (None, Dir [(''other'', File)]))
   \<and> (\<exists>N. \<forall>n\<ge>N. sftp_RemoveAllRecursive (sftp_memfs []) n ''root''
         (Dir [(''root'', Dir [(''a'', File), (''d'', Dir [(''x'', File), (''y'', Dir [])])]),
               (''other'', File)])
        = Some (None, Dir [(''other'', File)]))"
  using RemoveAllRecursive_removable_tree [of
      "Dir [(''root'', Dir [(''a'', File), (''d'', Dir [(''x'', File), (''y'', Dir [])])]),
            (''other'', File)]" "''root''"]
  by simp

subsection \<open>A leaf that cannot be removed\<close>

text \<open>
  The server holds a directory \<open>r\<close> with the single file \<open>x\<close>, and \<open>Delete\<close> of \<open>r/x\<close> always
  fails. The state never changes, so every pass meets the same listing.
\<close>

lemma locked_child_fails:
  "RemoveAllRecursive (memfs [''r/x'']) (Suc k) ''r/x'' (Dir [(''r'', Dir [(''x'', File)])])
     = Some (Some (Errorf_w ''r/x: 550 Operation not permitted: '' ErrInvalid),
             Dir [(''r'', Dir [(''x'', File)])])"
  by (simp add: RemoveAny_def Stat_def DeleteFile_def memfs_def mem_Stat_def mem_Delete_def
      info_of_def refused_def Errorf_w_def errors_Is_def)

lemma locked_retry_loop:
  "retry_loop (memfs [''r/x'']) (RemoveAllRecursive (memfs [''r/x'']) m) k ''r''
       [\<lparr>Name = ''x'', IsDir = False\<rparr>] (Suc 0) [] None (Dir [(''r'', Dir [(''x'', File)])])
     \<in> {None, Some (Break, Dir [(''r'', Dir [(''x'', File)])])}"
proof (cases m)
  case 0
  then show ?thesis by (cases k) simp_all
next
  case (Suc j)
  show ?thesis
  proof (cases k)
    case 0
    then show ?thesis by simp
  next
    case k: (Suc k')
    show ?thesis
    proof (cases k')
      case 0
      with k Suc show ?thesis by (simp add: locked_child_fails del: RemoveAllRecursive.simps)
    next
      case (Suc k'')
      with k \<open>m = Suc j\<close> show ?thesis
        by (simp add: locked_child_fails del: RemoveAllRecursive.simps)
    qed
  qed
qed

lemma locked_dir_loop:
  "dir_loop (memfs [''r/x'']) (RemoveAllRecursive (memfs [''r/x'']) m) k ''r''
     (Dir [(''r'', Dir [(''x'', File)])]) = None"
proof (induction k)
  case 0
  then show ?case by simp
next
  case (Suc k)
  have rd: "ReadDir (memfs [''r/x'']) ''r'' (Dir [(''r'', Dir [(''x'', File)])])
      = (Inr [\<lparr>Name = ''x'', IsDir = False\<rparr>], Dir [(''r'', Dir [(''x'', File)])])"
    by (simp add: ReadDir_def memfs_def mem_ReadDir_def info_of_def)
  from locked_retry_loop [of m "Suc k"] Suc.IH show ?case
    by (auto simp add: rd simp del: retry_loop.simps)
qed

lemma sftp_locked_child_fails:
  "sftp_RemoveAllRecursive (sftp_memfs [''r/x'']) (Suc k) ''r/x''
       (Dir [(''r'', Dir [(''x'', File)])])
     = Some (Some sftp_failure, Dir [(''r'', Dir [(''x'', File)])])"
  by (simp add: sftp_Remove_def sftp_memfs_def mem_Remove_def sftp_failure_def errors_Is_def)

lemma sftp_locked_retry_loop:
  "sftp_retry_loop (sftp_RemoveAllRecursive (sftp_memfs [''r/x'']) m) k ''r''
       [\<lparr>Name = ''x'', IsDir = False\<rparr>] (Suc 0) [] None (Dir [(''r'', Dir [(''x'', File)])])
     \<in> {None, Some (Break, [''x'', ''x''], Some sftp_failure,
                     Dir [(''r'', Dir [(''x'', File)])])}"
proof (cases m)
  case 0
  then show ?thesis by (cases k) simp_all
next
  case (Suc j)
  show ?thesis
  proof (cases k)
    case 0
    then show ?thesis by simp
  next
    case k: (Suc k')
    show ?thesis
    proof (cases k')
      case 0
      with k Suc show ?thesis
        by (simp add: sftp_locked_child_fails del: sftp_RemoveAllRecursive.simps)
    next
      case (Suc k'')
      with k \<open>m = Suc j\<close> show ?thesis
        by (simp add: sftp_locked_child_fails del: sftp_RemoveAllRecursive.simps)
    qed
  qed
qed

lemma sftp_locked_dir_loop:
  "sftp_dir_loop (sftp_memfs [''r/x'']) (sftp_RemoveAllRecursive (sftp_memfs [''r/x'']) m) k
     ''r'' (Dir [(''r'', Dir [(''x'', File)])]) = None"
proof (induction k)
  case 0
  then show ?case by simp
next
  case (Suc k)
  have rd: "sftp_ReadDir (sftp_memfs [''r/x'']) ''r'' (Dir [(''r'', Dir [(''x'', File)])])
      = (Inr [\<lparr>Name = ''x'', IsDir = False\<rparr>], Dir [(''r'', Dir [(''x'', File)])])"
    by (simp add: sftp_ReadDir_def sftp_memfs_def mem_ReadDir_def info_of_def)
  from sftp_locked_retry_loop [of m "Suc k"] Suc.IH show ?case
    by (auto simp add: rd simp del: sftp_retry_loop.simps)
qed

lemma sftp_locked_leaf_no_result:
  "sftp_RemoveAllRecursive (sftp_memfs [''r/x'']) n ''r'' (Dir [(''r'', Dir [(''x'', File)])])
     = None"
proof (cases n)
  case 0
  then show ?thesis by simp
next
  case (Suc m)
  have rm: "sftp_Remove (sftp_memfs [''r/x'']) ''r'' (Dir [(''r'', Dir [(''x'', File)])])
      = (Some sftp_not_empty, Dir [(''r'', Dir [(''x'', File)])])"
    by (simp add: sftp_Remove_def sftp_memfs_def mem_Remove_def sftp_not_empty_def)
  have "sftp_RemoveAllRecursive (sftp_memfs [''r/x'']) (Suc m) ''r''
        (Dir [(''r'', Dir [(''x'', File)])])
    = sftp_dir_loop (sftp_memfs [''r/x'']) (sftp_RemoveAllRecursive (sftp_memfs [''r/x'']) m)
        (Suc m) ''r'' (Dir [(''r'', Dir [(''x'', File)])])"
    by (rule sftp_RemoveAllRecursive_descends [OF _ rm sftp_not_empty_continues]) simp
  with Suc show ?thesis by (simp only: sftp_locked_dir_loop)
qed

text \<open>
  C4 (the code departs from the claim): with one unremovable leaf \<open>r/x\<close>,
  \<open>RemoveAllRecursive\<close> on \<open>r\<close> has no result for any fuel, in the FTP producer and in the
  SFTP producer. The first pass fails on the one child and \<open>numErr = entities\<close>; the second
  pass runs over the doubled name list, counts two failures, breaks, and the loop \<open>DIR\<close>
  lists the directory again, without end. The claim has the call terminate with a
  non-nil error.
\<close>

theorem RemoveAllRecursive_locked_leaf_no_result:
  "RemoveAllRecursive (memfs [''r/x'']) n ''r'' (Dir [(''r'', Dir [(''x'', File)])]) = None
   \<and> sftp_RemoveAllRecursive (sftp_memfs [''r/x'']) n ''r''
         (Dir [(''r'', Dir [(''x'', File)])]) = None"
proof
  show "RemoveAllRecursive (memfs [''r/x'']) n ''r'' (Dir [(''r'', Dir [(''x'', File)])]) = None"
  proof (cases n)
    case 0
    then show ?thesis by simp
  next
    case (Suc m)
    have res: "resolve (split_path ''r'') (Dir [(''r'', Dir [(''x'', File)])])
        = Some (Dir [(''x'', File)])"
      by simp
    have "RemoveAllRecursive (memfs [''r/x'']) (Suc m) ''r'' (Dir [(''r'', Dir [(''x'', File)])])
      = dir_loop (memfs [''r/x'']) (RemoveAllRecursive (memfs [''r/x'']) m) (Suc m) ''r''
          (Dir [(''r'', Dir [(''x'', File)])])"
      by (rule RemoveAllRecursive_descends [OF _ RemoveAny_mem_nonempty_dir [OF res]
            not_empty_error_continues]) simp_all
    with Suc show ?thesis by (simp only: locked_dir_loop)
  qed
  show "sftp_RemoveAllRecursive (sftp_memfs [''r/x'']) n ''r''
         (Dir [(''r'', Dir [(''x'', File)])]) = None"
    by (rule sftp_locked_leaf_no_result)
qed

subsection \<open>The retry pass and the error returned\<close>

text \<open>
  C2 (the code departs from the claim): the second pass over a listing runs over the
  accumulated names, each child twice, and compares the failures of that pass with the
  size of the listing. On the server where \<open>r/x\<close> is locked, two passes make three attempts
  on the one child and leave the inner loop by \<open>break\<close> although no child was removed. On
  the server where \<open>Delete\<close> fails twice and then succeeds, the second pass removes the
  child at its second attempt, counts one failure for a listing of one, and a third pass
  of three attempts follows before the directory is listed again. The inner loop of the
  SFTP copy leaves with the doubled names as well.
\<close>

theorem retry_loop_second_pass_doubles_names:
  "retry_loop (traced (memfs [''r/x'']))
       (RemoveAllRecursive (traced (memfs [''r/x''])) (Suc 0)) (Suc (Suc 0)) ''r''
       [\<lparr>Name = ''x'', IsDir = False\<rparr>] 1 [] None (Dir [(''r'', Dir [(''x'', File)])], [])
     = Some (Break, (Dir [(''r'', Dir [(''x'', File)])],
         [CStat ''r/x'', CDelete ''r/x'', CStat ''r/x'', CDelete ''r/x'',
          CStat ''r/x'', CDelete ''r/x'']))
   \<and> RemoveAllRecursive (traced (flakyfs [])) 3 ''r''
         ((Dir [(''r'', Dir [(''x'', File)])], 2), [])
     = Some (None, (Dir [], 0),
         [CStat ''r'', CRmdir ''r'', CReadDir ''r'',
          CStat ''r/x'', CDelete ''r/x'',
          CStat ''r/x'', CDelete ''r/x'', CStat ''r/x'', CDelete ''r/x'',
          CStat ''r/x'', CStat ''r/x'', CStat ''r/x'',
          CReadDir ''r'', CStat ''r'', CRmdir ''r''])
   \<and> sftp_retry_loop (sftp_RemoveAllRecursive (sftp_memfs [''r/x'']) (Suc 0)) (Suc (Suc 0))
         ''r'' [\<lparr>Name = ''x'', IsDir = False\<rparr>] 1 [] None (Dir [(''r'', Dir [(''x'', File)])])
     = Some (Break, [''x'', ''x''], Some sftp_failure, Dir [(''r'', Dir [(''x'', File)])])"
  by code_simp

text \<open>
  Within one listing the first error wins: once \<open>err\<close> is set, no later child changes it.
\<close>

lemma range_names_keeps_first_error:
  "range_names rec path names (Some e) k s = Some ((err', k'), s') \<Longrightarrow> err' = Some e"
proof (induction names arbitrary: k s)
  case Nil
  then show ?case by simp
next
  case (Cons name rest)
  show ?case
  proof (cases "rec (path @ ''/'' @ name) s")
    case None
    with Cons.prems show ?thesis by simp
  next
    case (Some a)
    obtain err1 s1 where "a = (err1, s1)" by (cases a)
    with Some Cons.prems
    have "range_names rec path rest (Some e) (if err1 \<noteq> None then k + 1 else k) s1
        = Some ((err', k'), s')"
      by simp
    then show ?thesis by (rule Cons.IH)
  qed
qed

text \<open>
  C3 (the code departs from the claim): the directory \<open>r\<close> cannot be removed and its file
  \<open>x\<close> fails once. The first pass records the child's error, of class Invalid; the child
  goes at the second pass, the directory is listed empty, and the final \<open>RemoveAny\<close> fails.
  The call returns that final error, of class Permission, not the recorded one.
\<close>

theorem RemoveAllRecursive_returns_final_error:
  "range_names (RemoveAllRecursive (flakyfs [''r'']) 2) ''r'' [''x''] None 0
       (Dir [(''r'', Dir [(''x'', File)])], 1)
     = Some ((Some (Errorf_w ''r/x: 550 Operation not permitted: '' ErrInvalid), 1),
             (Dir [(''r'', Dir [(''x'', File)])], 0))
   \<and> RemoveAllRecursive (flakyfs [''r'']) 3 ''r'' (Dir [(''r'', Dir [(''x'', File)])], 1)
     = Some (Some (Errorf_w ''r: 550 Operation not permitted: Directory is not empty: ''
                     ErrPermission),
             (Dir [(''r'', Dir [])], 0))"
  by code_simp

subsection \<open>Creating directories\<close>

lemma update_snoc:
  "map_of xs k = None \<Longrightarrow> AList.update k v (xs @ [(k, w)]) = xs @ [(k, v)]"
  by (induction xs) (auto split: if_splits)

lemma MkdirAll_plain_file:
  "Stat p path s = (Inr dir, s1) \<Longrightarrow> \<not> IsDir dir \<Longrightarrow>
     MkdirAll p path s = (Some (os_PathError ''mkdir'' path ENOTDIR), s1)"
  by simp

lemma local_MakedirAll_existing:
  "os_Stat p path s = (Inr info, s1) \<Longrightarrow> local_MakedirAll p path s = (None, s1)"
  by (simp add: local_MakedirAll_def)

text \<open>
  C8: on the in-memory server whose root holds no entry \<open>a\<close>, \<open>MkdirAll\<close> of \<open>a/b/c\<close> looks
  the three paths up child first, then makes \<open>a\<close>, \<open>a/b\<close> and \<open>a/b/c\<close> in that order and
  returns nil; called again at once it returns nil after a single \<open>Stat\<close> and leaves the
  tree as it is.
\<close>

theorem MkdirAll_parents_first:
  assumes "map_of es ''a'' = None"
  shows "MkdirAll (traced (memfs locked)) ''a/b/c'' (Dir es, tr)
      = (None, (Dir (es @ [(''a'', Dir [(''b'', Dir [(''c'', Dir [])])])]),
           tr @ [CStat ''a/b/c'', CStat ''a/b'', CStat ''a'',
                 CMkdir ''a'', CMkdir ''a/b'', CMkdir ''a/b/c'']))
    \<and> MkdirAll (traced (memfs locked)) ''a/b/c''
         (Dir (es @ [(''a'', Dir [(''b'', Dir [(''c'', Dir [])])])]),
          tr @ [CStat ''a/b/c'', CStat ''a/b'', CStat ''a'',
                 CMkdir ''a'', CMkdir ''a/b'', CMkdir ''a/b/c''])
      = (None, (Dir (es @ [(''a'', Dir [(''b'', Dir [(''c'', Dir [])])])]),
           tr @ [CStat ''a/b/c'', CStat ''a/b'', CStat ''a'',
                 CMkdir ''a'', CMkdir ''a/b'', CMkdir ''a/b/c'', CStat ''a/b/c'']))"
  using assms
  by (simp add: traced_def memfs_def Stat_def MakeDir_def mem_Stat_def mem_Mkdir_def
      info_of_def update_snoc map_add_def)

theorem MkdirAll_parents_first_witness:
  "map_of ([] :: (string \<times> node) list) ''a'' = None
   \<and> MkdirAll (traced (memfs [])) ''a/b/c'' (Dir [], [])
      = (None, (Dir [(''a'', Dir [(''b'', Dir [(''c'', Dir [])])])],
           [CStat ''a/b/c'', CStat ''a/b'', CStat ''a'',
            CMkdir ''a'', CMkdir ''a/b'', CMkdir ''a/b/c'']))
   \<and> MkdirAll (traced (memfs [])) ''a/b/c''
         (Dir [(''a'', Dir [(''b'', Dir [(''c'', Dir [])])])],
          [CStat ''a/b/c'', CStat ''a/b'', CStat ''a'',
           CMkdir ''a'', CMkdir ''a/b'', CMkdir ''a/b/c''])
      = (None, (Dir [(''a'', Dir [(''b'', Dir [(''c'', Dir [])])])],
           [CStat ''a/b/c'', CStat ''a/b'', CStat ''a'',
            CMkdir ''a'', CMkdir ''a/b'', CMkdir ''a/b/c'', CStat ''a/b/c'']))"
  using MkdirAll_parents_first [of "[]" "[]" "[]"] by simp

text \<open>
  C7 (the code departs from the claim): where \<open>f\<close> is a plain file, \<open>MkdirAll\<close> of the FTP
  producer returns the path error "not a directory" and leaves the tree alone, but
  \<open>MakedirAll\<close> of the local producer returns nil: it asks only whether \<open>os.Stat\<close> failed
  with NotExist.
\<close>

theorem MakedirAll_plain_file_local_returns_nil:
  "mem_Stat ''f'' (Dir [(''f'', File)]) = (Inr \<lparr>Name = ''f'', IsDir = False\<rparr>, Dir [(''f'', File)])
   \<and> MkdirAll (memfs []) ''f'' (Dir [(''f'', File)])
       = (Some (os_PathError ''mkdir'' ''f'' ENOTDIR), Dir [(''f'', File)])
   \<and> local_MakedirAll \<lparr>os_Stat = mem_Stat, os_MkdirAll = MkdirAll (memfs [])\<rparr> ''f''
         (Dir [(''f'', File)])
       = (None, Dir [(''f'', File)])"
  by (simp add: local_MakedirAll_def memfs_def Stat_def mem_Stat_def info_of_def)

end
